theory Spec2Isabelle
  imports Complex_Main
begin

section \<open>JavaScript values as the battle hub receives them\<close>

text \<open>
  Request payloads and card data reach \<^verbatim>\<open>services/battleHub.ts\<close> after
  \<^verbatim>\<open>JSON.parse\<close> (express body parser, socket.io, the JSON user files), so a value is
  \<^verbatim>\<open>undefined\<close> (a missing field) or a JSON value. A number is an IEEE double: not a
  number, an infinity, or a finite value (a rational; \<open>-0\<close> and \<open>+0\<close> are identified,
  the code below never tells them apart). An object is the list of its own properties,
  the first binding of a key being the property's value.
\<close>

datatype jsnum = NaN | PInf | NInf | Fin rat

datatype jsval =
    JUndefined
  | JNull
  | JBool bool
  | JNum jsnum
  | JStr string
  | JArr "jsval list"
  | JObj "(string \<times> jsval) list"

datatype error =
    DECK_NOT_FOUND
  | DECK_PRIVATE
  | NO_ELIGIBLE_CARDS
  | LOBBY_NOT_FOUND
  | LOBBY_FINISHED
  | ALREADY_STARTED
  | NOT_STARTED
  | NO_ACTIVE_QUESTION
  | PLAYER_NOT_IN_LOBBY
  | TypeError

text \<open>
  The built-ins of the ECMAScript runtime that the code calls are not code of the
  repository; they are parameters of the model: \<open>StringToNumber\<close> (the string case of
  \<^verbatim>\<open>Number(x)\<close>), \<open>NumberToString\<close> (the number case of \<^verbatim>\<open>String(x)\<close> and of template
  literals) and \<open>fround\<close>, the rounding of an exact arithmetic result to the nearest
  double.
\<close>

record runtime =
  StringToNumber :: "string \<Rightarrow> jsnum"
  NumberToString :: "jsnum \<Rightarrow> string"
  fround :: "rat \<Rightarrow> rat"

text \<open>\<^verbatim>\<open>v?.k\<close> for the keys the code reads (\<^verbatim>\<open>answer\<close>, \<^verbatim>\<open>index\<close>, \<^verbatim>\<open>indices\<close>,
  \<^verbatim>\<open>correct\<close>, \<^verbatim>\<open>options\<close>): none of them is a property of a prototype, so the result is
  the own property of an object and \<^verbatim>\<open>undefined\<close> for every other value.\<close>

fun getProp :: "jsval \<Rightarrow> string \<Rightarrow> jsval" where
  "getProp (JObj kvs) k = (case map_of kvs k of None \<Rightarrow> JUndefined | Some v \<Rightarrow> v)"
| "getProp _ k = JUndefined"

definition hasOwn :: "(string \<times> jsval) list \<Rightarrow> string \<Rightarrow> bool" where
  "hasOwn kvs k = (map_of kvs k \<noteq> None)"

text \<open>\<^verbatim>\<open>Boolean(v)\<close>, also the truthiness test of \<^verbatim>\<open>o?.correct ? i : -1\<close>.\<close>

fun Boolean :: "jsval \<Rightarrow> bool" where
  "Boolean JUndefined = False"
| "Boolean JNull = False"
| "Boolean (JBool b) = b"
| "Boolean (JNum n) = (n \<noteq> NaN \<and> n \<noteq> Fin 0)"
| "Boolean (JStr s) = (s \<noteq> [])"
| "Boolean (JArr xs) = True"
| "Boolean (JObj kvs) = True"

text \<open>
  \<^verbatim>\<open>String(v)\<close> as \<^verbatim>\<open>Array.prototype.join\<close> applies it to the elements of an array, and
  \<^verbatim>\<open>join\<close> itself. A parsed object inherits \<^verbatim>\<open>Object.prototype.toString\<close> unless the
  JSON text gave it an own property \<^verbatim>\<open>toString\<close>; that property is never callable, the
  inherited \<^verbatim>\<open>valueOf\<close> returns the object, and the conversion throws a TypeError.
\<close>

fun ToString :: "runtime \<Rightarrow> jsval \<Rightarrow> error + string"
  and arrayJoin :: "runtime \<Rightarrow> jsval list \<Rightarrow> error + string" where
  "ToString rt JUndefined = Inr ''undefined''"
| "ToString rt JNull = Inr ''null''"
| "ToString rt (JBool b) = Inr (if b then ''true'' else ''false'')"
| "ToString rt (JNum n) = Inr (NumberToString rt n)"
| "ToString rt (JStr s) = Inr s"
| "ToString rt (JArr xs) = arrayJoin rt xs"
| "ToString rt (JObj kvs) =
     (if hasOwn kvs ''toString'' then Inl TypeError else Inr ''[object Object]'')"
| "arrayJoin rt [] = Inr []"
| "arrayJoin rt (x # xs) =
     (case (case x of JUndefined \<Rightarrow> Inr [] | JNull \<Rightarrow> Inr [] | _ \<Rightarrow> ToString rt x) of
        Inl e \<Rightarrow> Inl e
      | Inr s \<Rightarrow>
          (if xs = [] then Inr s
           else (case arrayJoin rt xs of Inl e \<Rightarrow> Inl e | Inr t \<Rightarrow> Inr (s @ '','' @ t))))"

text \<open>\<^verbatim>\<open>Number(v)\<close>.\<close>

fun Number :: "runtime \<Rightarrow> jsval \<Rightarrow> error + jsnum" where
  "Number rt JUndefined = Inr NaN"
| "Number rt JNull = Inr (Fin 0)"
| "Number rt (JBool b) = Inr (Fin (if b then 1 else 0))"
| "Number rt (JNum n) = Inr n"
| "Number rt (JStr s) = Inr (StringToNumber rt s)"
| "Number rt (JArr xs) =
     (case arrayJoin rt xs of Inl e \<Rightarrow> Inl e | Inr s \<Rightarrow> Inr (StringToNumber rt s))"
| "Number rt (JObj kvs) =
     (if hasOwn kvs ''toString'' then Inl TypeError
      else Inr (StringToNumber rt ''[object Object]''))"

text \<open>\<^verbatim>\<open>indices.map(n => Number(n))\<close>: the first conversion that throws ends the map.\<close>

fun mapNumber :: "runtime \<Rightarrow> jsval list \<Rightarrow> error + jsnum list" where
  "mapNumber rt [] = Inr []"
| "mapNumber rt (x # xs) =
     (case Number rt x of
        Inl e \<Rightarrow> Inl e
      | Inr n \<Rightarrow> (case mapNumber rt xs of Inl e \<Rightarrow> Inl e | Inr ns \<Rightarrow> Inr (n # ns)))"

text \<open>\<^verbatim>\<open>a === b\<close> on numbers: \<^verbatim>\<open>NaN\<close> equals nothing.\<close>

definition strictEqNum :: "jsnum \<Rightarrow> jsnum \<Rightarrow> bool" where
  "strictEqNum a b = (a \<noteq> NaN \<and> b \<noteq> NaN \<and> a = b)"

section \<open>Cards and question snapshots\<close>

datatype CardType = MCQ_SINGLE | MCQ_MULTI | TRUE_FALSE | MATCH_LINES | MATCH_BUCKETS | TEXT

definition ELIGIBLE_TYPES :: "CardType list" where
  "ELIGIBLE_TYPES = [TRUE_FALSE, MCQ_SINGLE, MCQ_MULTI]"

text \<open>The fields \<^verbatim>\<open>id\<close> and \<^verbatim>\<open>type\<close> are \<open>qid\<close> and \<open>qtype\<close> here; \<^verbatim>\<open>type\<close> holds the card's
  type as it is, the cast in \<^verbatim>\<open>createLobby\<close> changing nothing at run time.\<close>

record QuestionSnapshot =
  qid :: string
  qtype :: CardType
  prompt_md :: string
  data_json :: jsval
  time_limit_sec :: "int option"
  hint :: "string option"

section \<open>gradeAnswer\<close>

text \<open>\<^verbatim>\<open>Array.isArray(data?.options) ? data.options : []\<close>.\<close>

definition optionsOf :: "jsval \<Rightarrow> jsval list" where
  "optionsOf data = (case getProp data ''options'' of JArr os \<Rightarrow> os | _ \<Rightarrow> [])"

text \<open>\<^verbatim>\<open>options.findIndex(o => o?.correct === true)\<close>: the first position, or \<open>-1\<close>.\<close>

fun findIndex :: "('a \<Rightarrow> bool) \<Rightarrow> 'a list \<Rightarrow> int" where
  "findIndex P [] = -1"
| "findIndex P (x # xs) =
     (if P x then 0 else (let r = findIndex P xs in if r < 0 then -1 else r + 1))"

definition flaggedTrue :: "jsval \<Rightarrow> bool" where
  "flaggedTrue o' = (getProp o' ''correct'' = JBool True)"

text \<open>The positions \<^verbatim>\<open>i\<close> with \<^verbatim>\<open>options[i]?.correct\<close> truthy, in order: the members of
  the \<^verbatim>\<open>Set\<close> named \<^verbatim>\<open>correct\<close>.\<close>

definition correctSet :: "jsval list \<Rightarrow> nat list" where
  "correctSet options = [i \<leftarrow> [0 ..< length options]. Boolean (getProp (options ! i) ''correct'')]"

text \<open>\<^verbatim>\<open>snapshot.data_json ?? {}\<close>.\<close>

definition dataOf :: "QuestionSnapshot \<Rightarrow> jsval" where
  "dataOf snapshot =
     (case data_json snapshot of JUndefined \<Rightarrow> JObj [] | JNull \<Rightarrow> JObj [] | d \<Rightarrow> d)"

text \<open>\<^verbatim>\<open>Array.isArray(payload?.indices) ? payload.indices : []\<close>, before the conversion.\<close>

definition indicesOf :: "jsval \<Rightarrow> jsval list" where
  "indicesOf payload = (case getProp payload ''indices'' of JArr ns \<Rightarrow> ns | _ \<Rightarrow> [])"

definition gradeAnswer :: "runtime \<Rightarrow> QuestionSnapshot \<Rightarrow> jsval \<Rightarrow> error + bool" where
  "gradeAnswer rt snapshot payload =
     (let t = qtype snapshot;
          data = dataOf snapshot
      in if t = TRUE_FALSE then
           Inr (Boolean (getProp payload ''answer'') = Boolean (getProp data ''correct''))
         else if t = MCQ_SINGLE then
           (let options = optionsOf data;
                correctIndex = findIndex flaggedTrue options
            in case Number rt (getProp payload ''index'') of
                 Inl e \<Rightarrow> Inl e
               | Inr n \<Rightarrow> Inr (strictEqNum n (Fin (of_int correctIndex))))
         else if t = MCQ_MULTI then
           (let options = optionsOf data;
                correct = correctSet options
            in case mapNumber rt (indicesOf payload) of
                 Inl e \<Rightarrow> Inl e
               | Inr indices \<Rightarrow>
                   (let ans = remdups indices
                    in if length ans \<noteq> length correct then Inr False
                       else Inr (list_all (\<lambda>i. i \<in> set (map (\<lambda>k. Fin (of_nat k)) correct)) ans)))
         else Inr False)"

section \<open>The lobby and the hub\<close>

datatype AccessMode = PUBLIC | PRIVATE

record Card =
  card_id :: string
  card_type :: CardType
  card_prompt_md :: string
  card_data_json :: jsval
  card_time_limit_sec :: "int option"
  card_hint :: "string option"

text \<open>Of a deck, the fields the hub reads.\<close>

record Deck =
  deck_id :: string
  deck_title :: string
  visibility :: AccessMode
  cards :: "Card list"

record AnswerRec =
  ans_correct :: bool
  ans_ms :: int

record PlayerState =
  userId :: string
  username :: string
  score :: int
  answers :: "string \<rightharpoonup> AnswerRec"

text \<open>
  Timestamps: \<^verbatim>\<open>nowISO()\<close> is a non-empty string and \<^verbatim>\<open>nowMs()\<close> an integer, both inputs
  of the operations. An optional field is an \<open>option\<close>; the truthiness tests
  \<^verbatim>\<open>if (lobby.startedAt)\<close>, \<^verbatim>\<open>if (lobby.finishedAt)\<close>, \<^verbatim>\<open>if (!player.answers[key])\<close> and
  \<^verbatim>\<open>if (!lobby.players[uid])\<close> are tests for presence, the stored values (non-empty
  strings, objects) being truthy. User ids and answer keys are not names of properties of
  \<^verbatim>\<open>Object.prototype\<close>.
\<close>

record Lobby =
  lobby_id :: string
  hostId :: string
  deckId :: string
  deckTitle :: string
  access :: AccessMode
  pin :: "string option"
  createdAt :: string
  startedAt :: "string option"
  finishedAt :: "string option"
  players :: "string \<rightharpoonup> PlayerState"
  order :: "string list"
  snapshots :: "QuestionSnapshot list"
  qIndex :: int
  qShownAt :: "int option"

subsection \<open>What goes out on the socket\<close>

record ScoreRow =
  row_userId :: string
  row_username :: string
  row_score :: int

record PublicLobby =
  pl_id :: string
  pl_deckId :: string
  pl_deckTitle :: string
  pl_access :: AccessMode
  pl_createdAt :: string
  pl_startedAt :: "string option"
  pl_players :: "ScoreRow list"
  pl_qIndex :: int
  pl_total :: nat

text \<open>The argument of \<^verbatim>\<open>emit("lobby:question", ...)\<close>; its \<^verbatim>\<open>question\<close> object has the six
  fields of a snapshot.\<close>

record QuestionMsg =
  msg_lobbyId :: string
  msg_qIndex :: int
  msg_total :: nat
  msg_shownAt :: "int option"
  question :: QuestionSnapshot

datatype event =
    lobby_update PublicLobby
  | lobby_question QuestionMsg
  | lobby_scores string "ScoreRow list"
  | lobby_finished string "ScoreRow list"

text \<open>
  The hub: \<open>io\<close> is \<open>None\<close> until \<^verbatim>\<open>attachIO\<close>, then the sequence of events emitted so far,
  each with the room it went to.
\<close>

record BattleHub =
  io :: "(string \<times> event) list option"
  lobbies :: "string \<rightharpoonup> Lobby"
  pinIndex :: "string \<rightharpoonup> string"

definition attachIO :: "BattleHub \<Rightarrow> BattleHub" where
  "attachIO h = h\<lparr>io := Some []\<rparr>"

definition emit :: "string \<Rightarrow> event \<Rightarrow> BattleHub \<Rightarrow> BattleHub" where
  "emit room ev h = (case io h of None \<Rightarrow> h | Some sent \<Rightarrow> h\<lparr>io := Some (sent @ [(room, ev)])\<rparr>)"

text \<open>A lobby is an object held by reference in the map; a mutation of it is a new value
  stored under its key.\<close>

definition store :: "string \<Rightarrow> Lobby \<Rightarrow> BattleHub \<Rightarrow> BattleHub" where
  "store lobbyId l h = h\<lparr>lobbies := (lobbies h)(lobbyId \<mapsto> l)\<rparr>"

definition requireLobby :: "BattleHub \<Rightarrow> string \<Rightarrow> error + Lobby" where
  "requireLobby h lobbyId =
     (case lobbies h lobbyId of None \<Rightarrow> Inl LOBBY_NOT_FOUND | Some l \<Rightarrow> Inr l)"

definition getLobby :: "BattleHub \<Rightarrow> string \<Rightarrow> Lobby option" where
  "getLobby h lobbyId = lobbies h lobbyId"

text \<open>\<^verbatim>\<open>order.map(uid => ({ userId: uid, username: players[uid].username, score:
  players[uid].score }))\<close>; reading a field of a missing player throws.\<close>

fun rowsOf :: "(string \<rightharpoonup> PlayerState) \<Rightarrow> string list \<Rightarrow> error + ScoreRow list" where
  "rowsOf ps [] = Inr []"
| "rowsOf ps (uid # uids) =
     (case ps uid of
        None \<Rightarrow> Inl TypeError
      | Some p \<Rightarrow>
          (case rowsOf ps uids of
             Inl e \<Rightarrow> Inl e
           | Inr rs \<Rightarrow>
               Inr (\<lparr>row_userId = uid, row_username = username p, row_score = score p\<rparr> # rs)))"

definition publicLobby :: "Lobby \<Rightarrow> error + PublicLobby" where
  "publicLobby l =
     (case rowsOf (players l) (order l) of
        Inl e \<Rightarrow> Inl e
      | Inr rs \<Rightarrow>
          Inr \<lparr>pl_id = lobby_id l, pl_deckId = deckId l, pl_deckTitle = deckTitle l,
               pl_access = access l, pl_createdAt = createdAt l, pl_startedAt = startedAt l,
               pl_players = rs, pl_qIndex = qIndex l, pl_total = length (snapshots l)\<rparr>)"

text \<open>\<^verbatim>\<open>lobby.snapshots[lobby.qIndex]\<close>: \<^verbatim>\<open>undefined\<close> out of range.\<close>

definition currentSnapshot :: "Lobby \<Rightarrow> QuestionSnapshot option" where
  "currentSnapshot l =
     (if 0 \<le> qIndex l \<and> qIndex l < int (length (snapshots l))
      then Some (snapshots l ! nat (qIndex l)) else None)"

text \<open>
  \<^verbatim>\<open>emitQuestion\<close>. The argument of \<^verbatim>\<open>this.io?.to(...).emit(...)\<close> is evaluated only when a
  socket server is attached; there \<^verbatim>\<open>q.id\<close> throws when \<^verbatim>\<open>q\<close> is \<^verbatim>\<open>undefined\<close>.
\<close>

definition emitQuestion :: "Lobby \<Rightarrow> BattleHub \<Rightarrow> BattleHub \<times> (error + unit)" where
  "emitQuestion l h =
     (case io h of
        None \<Rightarrow> (h, Inr ())
      | Some sent \<Rightarrow>
          (case currentSnapshot l of
             None \<Rightarrow> (h, Inl TypeError)
           | Some q \<Rightarrow>
               (emit (lobby_id l)
                  (lobby_question
                     \<lparr>msg_lobbyId = lobby_id l, msg_qIndex = qIndex l,
                      msg_total = length (snapshots l), msg_shownAt = qShownAt l,
                      question = \<lparr>qid = qid q, qtype = qtype q, prompt_md = prompt_md q,
                                  data_json = data_json q, time_limit_sec = time_limit_sec q,
                                  hint = hint q\<rparr>\<rparr>) h,
                Inr ())))"

text \<open>\<^verbatim>\<open>questionPayload\<close> of \<^verbatim>\<open>routes/battles.ts\<close>, the \<^verbatim>\<open>current\<close> field of the replies
  to start and next; \<open>None\<close> is \<^verbatim>\<open>null\<close>.\<close>

definition questionPayload :: "Lobby \<Rightarrow> QuestionMsg option" where
  "questionPayload l =
     (if qIndex l < 0 \<or> qIndex l \<ge> int (length (snapshots l)) then None
      else (let q = snapshots l ! nat (qIndex l)
            in Some \<lparr>msg_lobbyId = lobby_id l, msg_qIndex = qIndex l,
                     msg_total = length (snapshots l), msg_shownAt = qShownAt l,
                     question = \<lparr>qid = qid q, qtype = qtype q, prompt_md = prompt_md q,
                                 data_json = data_json q, time_limit_sec = time_limit_sec q,
                                 hint = hint q\<rparr>\<rparr>))"

section \<open>Operations of the hub\<close>

subsection \<open>createLobby\<close>

text \<open>
  \<^verbatim>\<open>pick\<close>: the Fisher-Yates loop runs \<^verbatim>\<open>i\<close> from \<^verbatim>\<open>a.length - 1\<close> down to \<open>1\<close>;
  \<open>rnd i\<close> is the draw \<^verbatim>\<open>(Math.random() * (i + 1)) | 0\<close> of that round, between \<open>0\<close> and \<open>i\<close>.
\<close>

fun shuffleLoop :: "(nat \<Rightarrow> nat) \<Rightarrow> nat \<Rightarrow> 'a list \<Rightarrow> 'a list" where
  "shuffleLoop rnd 0 a = a"
| "shuffleLoop rnd (Suc k) a =
     (let i = Suc k; j = rnd i in shuffleLoop rnd k (a[i := a ! j, j := a ! i]))"

definition pick :: "(nat \<Rightarrow> nat) \<Rightarrow> 'a list \<Rightarrow> nat \<Rightarrow> 'a list" where
  "pick rnd arr n = take n (shuffleLoop rnd (length arr - 1) arr)"

text \<open>
  What \<^verbatim>\<open>createLobby\<close> takes from outside: the result of \<^verbatim>\<open>findDeckAnywhere\<close> (the deck
  and its owner's id), the draws of the shuffle, \<^verbatim>\<open>nanoid(8)\<close>, the six digits
  \<^verbatim>\<open>String(Math.floor(100000 + Math.random() * 900000))\<close> and the clock.
\<close>

record CreateEnv =
  found :: "(Deck \<times> string) option"
  draws :: "nat \<Rightarrow> nat"
  nanoid8 :: string
  pinDigits :: string
  nowISO :: string

text \<open>\<open>count\<close> is the \<^verbatim>\<open>count\<close> of the request, an integer from 1 to 50 by the route's
  schema.\<close>

definition createLobby ::
  "CreateEnv \<Rightarrow> string \<Rightarrow> nat \<Rightarrow> AccessMode \<Rightarrow> BattleHub \<Rightarrow> BattleHub \<times> (error + Lobby)" where
  "createLobby env host count acc h =
     (case found env of
        None \<Rightarrow> (h, Inl DECK_NOT_FOUND)
      | Some (deck, owner) \<Rightarrow>
          if visibility deck \<noteq> PUBLIC \<and> owner \<noteq> host then (h, Inl DECK_PRIVATE)
          else
            (let eligibles = filter (\<lambda>c. card_type c \<in> set ELIGIBLE_TYPES) (cards deck)
             in if length eligibles = 0 then (h, Inl NO_ELIGIBLE_CARDS)
                else
                  (let shots = map (\<lambda>c. \<lparr>qid = card_id c, qtype = card_type c,
                                          prompt_md = card_prompt_md c,
                                          data_json = card_data_json c,
                                          time_limit_sec = card_time_limit_sec c,
                                          hint = card_hint c\<rparr>)
                                 (pick (draws env) eligibles (min count (length eligibles)));
                       lobbyId = nanoid8 env;
                       pin' = (if acc = PRIVATE then Some (pinDigits env) else None);
                       lobby = \<lparr>lobby_id = lobbyId, hostId = host, deckId = deck_id deck,
                                deckTitle = deck_title deck, access = acc, pin = pin',
                                createdAt = nowISO env, startedAt = None, finishedAt = None,
                                players = Map.empty, order = [], snapshots = shots,
                                qIndex = -1, qShownAt = None\<rparr>;
                       h1 = store lobbyId lobby h;
                       h2 = (case pin' of
                               None \<Rightarrow> h1
                             | Some p \<Rightarrow>
                                 if p \<noteq> [] then h1\<lparr>pinIndex := (pinIndex h1)(p \<mapsto> lobbyId)\<rparr>
                                 else h1)
                   in (h2, Inr lobby))))"

subsection \<open>join\<close>

text \<open>Truthiness of an optional string: \<^verbatim>\<open>undefined\<close> and \<^verbatim>\<open>""\<close> are falsy.\<close>

definition truthyStr :: "string option \<Rightarrow> bool" where
  "truthyStr s = (case s of None \<Rightarrow> False | Some t \<Rightarrow> t \<noteq> [])"

text \<open>\<^verbatim>\<open>this.io?.to(lobby.id).emit("lobby:update", this.publicLobby(lobby))\<close>.\<close>

definition emitUpdate :: "Lobby \<Rightarrow> BattleHub \<Rightarrow> BattleHub \<times> (error + unit)" where
  "emitUpdate l h =
     (case io h of
        None \<Rightarrow> (h, Inr ())
      | Some sent \<Rightarrow>
          (case publicLobby l of
             Inl e \<Rightarrow> (h, Inl e)
           | Inr pl \<Rightarrow> (emit (lobby_id l) (lobby_update pl) h, Inr ())))"

text \<open>\<^verbatim>\<open>if (!lobby.players[opts.userId]) { lobby.players[opts.userId] = {...};
  lobby.order.push(opts.userId); }\<close>: the lobby after it.\<close>

definition addPlayer :: "string \<Rightarrow> string \<Rightarrow> Lobby \<Rightarrow> Lobby" where
  "addPlayer uid uname lobby =
     (if players lobby uid = None
      then lobby\<lparr>players := (players lobby)
                  (uid \<mapsto> \<lparr>userId = uid, username = uname, score = 0, answers = Map.empty\<rparr>),
                 order := order lobby @ [uid]\<rparr>
      else lobby)"

text \<open>\<^verbatim>\<open>let id = opts.lobbyId; if (!id && opts.pin) id = this.pinIndex.get(opts.pin);\<close>\<close>

definition resolveId :: "BattleHub \<Rightarrow> string option \<Rightarrow> string option \<Rightarrow> string option" where
  "resolveId h lobbyId' pin' =
     (if \<not> truthyStr lobbyId' \<and> truthyStr pin'
      then (case pin' of None \<Rightarrow> None | Some p \<Rightarrow> pinIndex h p)
      else lobbyId')"

definition join ::
  "string option \<Rightarrow> string option \<Rightarrow> string \<Rightarrow> string \<Rightarrow> BattleHub
     \<Rightarrow> BattleHub \<times> (error + Lobby)" where
  "join lobbyId' pin' uid uname h =
     (case resolveId h lobbyId' pin' of
        None \<Rightarrow> (h, Inl LOBBY_NOT_FOUND)
      | Some i \<Rightarrow>
          if i = [] then (h, Inl LOBBY_NOT_FOUND)
          else
            (case lobbies h i of
               None \<Rightarrow> (h, Inl LOBBY_NOT_FOUND)
             | Some lobby \<Rightarrow>
                 if finishedAt lobby \<noteq> None then (h, Inl LOBBY_FINISHED)
                 else
                   (let lobby1 = addPlayer uid uname lobby;
                        (h1, sent) = emitUpdate lobby1 (store i lobby1 h)
                    in case sent of
                         Inl e \<Rightarrow> (h1, Inl e)
                       | Inr u \<Rightarrow> (h1, Inr lobby1))))"

subsection \<open>finish\<close>

text \<open>
  \<^verbatim>\<open>Array.prototype.sort\<close> with a comparator: a stable sort (ECMAScript 2019), an element
  \<open>a\<close> staying before \<open>b\<close> unless \<open>cmp a b > 0\<close>.
\<close>

fun insertBy :: "('a \<Rightarrow> 'a \<Rightarrow> int) \<Rightarrow> 'a \<Rightarrow> 'a list \<Rightarrow> 'a list" where
  "insertBy cmp x [] = [x]"
| "insertBy cmp x (y # ys) = (if cmp x y \<le> 0 then x # y # ys else y # insertBy cmp x ys)"

fun sortBy :: "('a \<Rightarrow> 'a \<Rightarrow> int) \<Rightarrow> 'a list \<Rightarrow> 'a list" where
  "sortBy cmp [] = []"
| "sortBy cmp (x # xs) = insertBy cmp x (sortBy cmp xs)"

definition prizes :: "int list" where
  "prizes = [30, 20, 10]"

text \<open>\<^verbatim>\<open>ranking.slice(0, 3).map((r, i) => ({ ...r, zapps: prizes[i] }))\<close>.\<close>

definition awardsOf :: "ScoreRow list \<Rightarrow> (ScoreRow \<times> int) list" where
  "awardsOf ranking = map (\<lambda>(i, r). (r, prizes ! i)) (enumerate 0 (take 3 ranking))"

datatype FinishOutcome =
    AlreadyFinished
  | Finished "ScoreRow list" "(ScoreRow \<times> int) list"

text \<open>
  \<^verbatim>\<open>finish\<close>: the lobby is changed before the first \<^verbatim>\<open>await\<close>; the ranking is fixed
  there too. The postings to the users' wallets (one per award, for the users the store
  still has) are the store's business: the outcome lists the awards. The final event
  carries the ranking.
\<close>

definition finish :: "string \<Rightarrow> string \<Rightarrow> BattleHub \<Rightarrow> BattleHub \<times> (error + FinishOutcome)" where
  "finish stamp lobbyId h =
     (case requireLobby h lobbyId of
        Inl e \<Rightarrow> (h, Inl e)
      | Inr lobby \<Rightarrow>
          if finishedAt lobby \<noteq> None then (h, Inr AlreadyFinished)
          else
            (let lobby1 = lobby\<lparr>finishedAt := Some stamp\<rparr>;
                 h1 = store lobbyId lobby1 h
             in case rowsOf (players lobby1) (order lobby1) of
                  Inl e \<Rightarrow> (h1, Inl e)
                | Inr rows \<Rightarrow>
                    (let ranking = sortBy (\<lambda>a b. row_score b - row_score a) rows;
                         awards = awardsOf ranking
                     in (emit (lobby_id lobby1) (lobby_finished (lobby_id lobby1) ranking) h1,
                         Inr (Finished ranking awards)))))"

subsection \<open>start and next\<close>

definition start :: "string \<Rightarrow> int \<Rightarrow> string \<Rightarrow> BattleHub \<Rightarrow> BattleHub \<times> (error + unit)" where
  "start stamp ms lobbyId h =
     (case requireLobby h lobbyId of
        Inl e \<Rightarrow> (h, Inl e)
      | Inr lobby \<Rightarrow>
          if startedAt lobby \<noteq> None then (h, Inl ALREADY_STARTED)
          else
            (let lobby1 = lobby\<lparr>startedAt := Some stamp, qIndex := 0, qShownAt := Some ms\<rparr>
             in emitQuestion lobby1 (store lobbyId lobby1 h)))"

text \<open>\<^verbatim>\<open>next\<close>, here \<open>next_question\<close>, calls \<^verbatim>\<open>this.finish(lobbyId)\<close> without awaiting it:
  what \<^verbatim>\<open>finish\<close> throws stays in its promise, and \<^verbatim>\<open>next\<close> returns.\<close>

definition next_question ::
  "string \<Rightarrow> int \<Rightarrow> string \<Rightarrow> BattleHub \<Rightarrow> BattleHub \<times> (error + unit)" where
  "next_question stamp ms lobbyId h =
     (case requireLobby h lobbyId of
        Inl e \<Rightarrow> (h, Inl e)
      | Inr lobby \<Rightarrow>
          if startedAt lobby = None then (h, Inl NOT_STARTED)
          else
            (let lobby1 = lobby\<lparr>qIndex := qIndex lobby + 1\<rparr>;
                 h1 = store lobbyId lobby1 h
             in if qIndex lobby1 \<ge> int (length (snapshots lobby1))
                then (fst (finish stamp lobbyId h1), Inr ())
                else
                  (let lobby2 = lobby1\<lparr>qShownAt := Some ms\<rparr>
                   in emitQuestion lobby2 (store lobbyId lobby2 h1))))"

subsection \<open>submitAnswer\<close>

definition Math_round :: "rat \<Rightarrow> int" where
  "Math_round x = \<lfloor>x + 1 / 2\<rfloor>"

text \<open>
  The score of one submission:
  \<^verbatim>\<open>let delta = 0; if (correct) { const speedBonus = Math.max(0, 5000 - elapsed);
  delta = 100 + Math.round(50 * (speedBonus / 5000)); }\<close>.
  The division and the product are double operations, each rounded by \<open>fround\<close>.
\<close>

definition scoreDelta :: "runtime \<Rightarrow> bool \<Rightarrow> int \<Rightarrow> int" where
  "scoreDelta rt ok elapsed =
     (if ok then
        (let speedBonus = max 0 (5000 - elapsed)
         in 100 + Math_round (fround rt (50 * fround rt (of_int speedBonus / 5000))))
      else 0)"

record SubmitResult =
  res_correct :: bool
  res_delta :: int
  res_elapsed :: int

text \<open>The template \<^verbatim>\<open>`${q.id}:${lobby.qIndex}`\<close>.\<close>

definition answerKey :: "runtime \<Rightarrow> QuestionSnapshot \<Rightarrow> int \<Rightarrow> string" where
  "answerKey rt q i = qid q @ '':'' @ NumberToString rt (Fin (of_int i))"

text \<open>\<^verbatim>\<open>if (!player.answers[key]) { player.answers[key] = { correct, ms: elapsed };
  player.score += delta; }\<close>: the lobby after it.\<close>

definition recordAnswer ::
  "string \<Rightarrow> string \<Rightarrow> bool \<Rightarrow> int \<Rightarrow> int \<Rightarrow> PlayerState \<Rightarrow> Lobby \<Rightarrow> Lobby" where
  "recordAnswer uid key ok elapsed delta player lobby =
     (if answers player key = None
      then lobby\<lparr>players := (players lobby)
             (uid \<mapsto> player\<lparr>answers := (answers player)
                         (key \<mapsto> \<lparr>ans_correct = ok, ans_ms = elapsed\<rparr>),
                       score := score player + delta\<rparr>)\<rparr>
      else lobby)"

text \<open>\<^verbatim>\<open>this.io?.to(lobby.id).emit("lobby:scores", { lobbyId, scores: lobby.order.map(...) })\<close>.\<close>

definition emitScores :: "Lobby \<Rightarrow> BattleHub \<Rightarrow> BattleHub \<times> (error + unit)" where
  "emitScores l h =
     (case io h of
        None \<Rightarrow> (h, Inr ())
      | Some sent \<Rightarrow>
          (case rowsOf (players l) (order l) of
             Inl e \<Rightarrow> (h, Inl e)
           | Inr rs \<Rightarrow> (emit (lobby_id l) (lobby_scores (lobby_id l) rs) h, Inr ())))"

text \<open>\<open>ms\<close> is the reading of \<^verbatim>\<open>nowMs()\<close>. Without a \<^verbatim>\<open>qShownAt\<close> the code reads the clock a
  second time and subtracts that reading; the model takes the two readings as equal. A
  lobby with a current question has a \<^verbatim>\<open>qShownAt\<close>: \<^verbatim>\<open>start\<close> and \<^verbatim>\<open>next\<close> set it.\<close>

definition submitAnswer ::
  "runtime \<Rightarrow> int \<Rightarrow> string \<Rightarrow> string \<Rightarrow> jsval \<Rightarrow> BattleHub
     \<Rightarrow> BattleHub \<times> (error + SubmitResult)" where
  "submitAnswer rt ms lobbyId uid payload h =
     (case requireLobby h lobbyId of
        Inl e \<Rightarrow> (h, Inl e)
      | Inr lobby \<Rightarrow>
          if qIndex lobby < 0 \<or> qIndex lobby \<ge> int (length (snapshots lobby))
          then (h, Inl NO_ACTIVE_QUESTION)
          else
            (let q = snapshots lobby ! nat (qIndex lobby);
                 elapsed = max 0 (ms - (case qShownAt lobby of None \<Rightarrow> ms | Some t \<Rightarrow> t))
             in case gradeAnswer rt q payload of
                  Inl e \<Rightarrow> (h, Inl e)
                | Inr ok \<Rightarrow>
                    (let delta = scoreDelta rt ok elapsed
                     in case players lobby uid of
                          None \<Rightarrow> (h, Inl PLAYER_NOT_IN_LOBBY)
                        | Some player \<Rightarrow>
                            (let key = answerKey rt q (qIndex lobby);
                                 lobby1 = recordAnswer uid key ok elapsed delta player lobby;
                                 (h1, sent) = emitScores lobby1 (store lobbyId lobby1 h)
                             in case sent of
                                  Inl e \<Rightarrow> (h1, Inl e)
                                | Inr u \<Rightarrow>
                                    (h1, Inr \<lparr>res_correct = ok, res_delta = delta,
                                              res_elapsed = elapsed\<rparr>)))))"

subsection \<open>Sequences of operations\<close>

datatype op =
    Join "string option" "string option" string string
  | Start string int string
  | Next string int string
  | SubmitAnswer int string string jsval
  | Finish string string

fun apply_op :: "runtime \<Rightarrow> op \<Rightarrow> BattleHub \<Rightarrow> BattleHub" where
  "apply_op rt (Join lobbyId' pin' uid uname) h = fst (join lobbyId' pin' uid uname h)"
| "apply_op rt (Start stamp ms lobbyId) h = fst (start stamp ms lobbyId h)"
| "apply_op rt (Next stamp ms lobbyId) h = fst (next_question stamp ms lobbyId h)"
| "apply_op rt (SubmitAnswer ms lobbyId uid payload) h =
     fst (submitAnswer rt ms lobbyId uid payload h)"
| "apply_op rt (Finish stamp lobbyId) h = fst (finish stamp lobbyId h)"

fun run :: "runtime \<Rightarrow> op list \<Rightarrow> BattleHub \<Rightarrow> BattleHub" where
  "run rt [] h = h"
| "run rt (x # xs) h = run rt xs (apply_op rt x h)"

section \<open>A runtime for concrete runs\<close>

text \<open>
  Concrete runs need values for the three built-ins. \<open>sampleRuntime\<close> reads the empty
  string as \<open>0\<close> and a decimal integer literal with an optional minus sign as its value,
  as ECMAScript does, and every other string as \<open>NaN\<close>; it prints integers in decimal;
  its arithmetic is exact. It is used only at inputs where it agrees with ECMAScript.
  The theorems hold for every runtime; the one on the speed bonus asks of the rounding
  that it is monotone and maps \<open>0\<close> to \<open>0\<close>, as rounding to the nearest double is.
\<close>

definition digitVal :: "char \<Rightarrow> nat option" where
  "digitVal c = (let n = (of_char c :: nat) in if 48 \<le> n \<and> n \<le> 57 then Some (n - 48) else None)"

fun digitsVal :: "nat \<Rightarrow> string \<Rightarrow> nat option" where
  "digitsVal acc [] = Some acc"
| "digitsVal acc (c # cs) =
     (case digitVal c of None \<Rightarrow> None | Some d \<Rightarrow> digitsVal (10 * acc + d) cs)"

definition intLiteral :: "string \<Rightarrow> jsnum" where
  "intLiteral s =
     (case s of
        [] \<Rightarrow> Fin 0
      | c # cs \<Rightarrow>
          if c = CHR ''-'' then
            (if cs = [] then NaN
             else (case digitsVal 0 cs of None \<Rightarrow> NaN | Some n \<Rightarrow> Fin (- of_nat n)))
          else (case digitsVal 0 s of None \<Rightarrow> NaN | Some n \<Rightarrow> Fin (of_nat n)))"

function showNat :: "nat \<Rightarrow> string" where
  "showNat n = (if n < 10 then [''0123456789'' ! n] else showNat (n div 10) @ [''0123456789'' ! (n mod 10)])"
  by pat_completeness auto
termination
  by (relation "measure (\<lambda>n. n)") auto

declare showNat.simps [simp del]

definition showNum :: "jsnum \<Rightarrow> string" where
  "showNum n =
     (case n of
        NaN \<Rightarrow> ''NaN''
      | PInf \<Rightarrow> ''Infinity''
      | NInf \<Rightarrow> ''-Infinity''
      | Fin q \<Rightarrow>
          if of_int \<lfloor>q\<rfloor> = q then
            (if q < 0 then ''-'' @ showNat (nat (- \<lfloor>q\<rfloor>)) else showNat (nat \<lfloor>q\<rfloor>))
          else ''NaN'')"

definition sampleRuntime :: runtime where
  "sampleRuntime = \<lparr>StringToNumber = intLiteral, NumberToString = showNum, fround = (\<lambda>x. x)\<rparr>"

section \<open>Predicates of the properties\<close>

text \<open>A value converts to a number or a string without a TypeError: no object with an own
  \<^verbatim>\<open>toString\<close> property is reached; \<^verbatim>\<open>join\<close> skips \<^verbatim>\<open>null\<close> and \<^verbatim>\<open>undefined\<close> elements,
  which convert as well.\<close>

fun coercible :: "jsval \<Rightarrow> bool" where
  "coercible (JObj kvs) = (\<not> hasOwn kvs ''toString'')"
| "coercible (JArr xs) = (\<forall>x \<in> set xs. coercible x)"
| "coercible _ = True"

text \<open>\<open>x\<close> stands before \<open>y\<close> in \<open>xs\<close>: at some position there is \<open>x\<close>, and \<open>y\<close> at a later
  one.\<close>

fun precedes :: "'a list \<Rightarrow> 'a \<Rightarrow> 'a \<Rightarrow> bool" where
  "precedes [] x y = False"
| "precedes (a # xs) x y = ((x = a \<and> y \<in> set xs) \<or> precedes xs x y)"

text \<open>The answer recorded for the participant under the key of the lobby's current
  question, if there is one.\<close>

definition recorded :: "runtime \<Rightarrow> BattleHub \<Rightarrow> string \<Rightarrow> string \<Rightarrow> AnswerRec option" where
  "recorded rt h lobbyId uid =
     (case lobbies h lobbyId of
        None \<Rightarrow> None
      | Some lobby \<Rightarrow>
          (case currentSnapshot lobby of
             None \<Rightarrow> None
           | Some q \<Rightarrow>
               (case players lobby uid of
                  None \<Rightarrow> None
                | Some player \<Rightarrow> answers player (answerKey rt q (qIndex lobby)))))"

text \<open>The score of a participant of a lobby.\<close>

definition scoreOf :: "BattleHub \<Rightarrow> string \<Rightarrow> string \<Rightarrow> int option" where
  "scoreOf h lobbyId uid =
     (case lobbies h lobbyId of
        None \<Rightarrow> None
      | Some lobby \<Rightarrow> map_option score (players lobby uid))"

text \<open>
  What holds of a lobby from \<^verbatim>\<open>createLobby\<close> on: before the start the index is \<open>-1\<close>, there
  is a question, and an unfinished lobby has its index below the number of questions.
\<close>

definition lobby_inv :: "Lobby \<Rightarrow> bool" where
  "lobby_inv l =
     ((startedAt l = None \<longrightarrow> qIndex l = -1) \<and> snapshots l \<noteq> [] \<and>
      (finishedAt l = None \<longrightarrow> qIndex l < int (length (snapshots l))))"

text \<open>A later state \<open>l'\<close> of the lobby \<open>l\<close>: the same questions, an index that is not
  smaller, and the invariant.\<close>

definition advanced :: "Lobby \<Rightarrow> Lobby \<Rightarrow> bool" where
  "advanced l l' = (lobby_inv l' \<and> qIndex l \<le> qIndex l' \<and> snapshots l' = snapshots l)"

section \<open>A deck, a lobby and its players, for concrete runs\<close>

definition exCard :: "string \<Rightarrow> bool \<Rightarrow> Card" where
  "exCard i key =
     \<lparr>card_id = i, card_type = TRUE_FALSE, card_prompt_md = ''A hash is reversible.'',
      card_data_json = JObj [(''correct'', JBool key)],
      card_time_limit_sec = Some 30, card_hint = None\<rparr>"

definition exDeck :: Deck where
  "exDeck = \<lparr>deck_id = ''deck01'', deck_title = ''Hashing'', visibility = PUBLIC,
             cards = [exCard ''card01'' True, exCard ''card02'' False]\<rparr>"

definition exEnv :: CreateEnv where
  "exEnv = \<lparr>found = Some (exDeck, ''alice''), draws = (\<lambda>i. i), nanoid8 = ''lobby001'',
            pinDigits = ''123456'', nowISO = ''2025-01-05T13:40:00.000Z''\<rparr>"

definition newHub :: BattleHub where
  "newHub = \<lparr>io = None, lobbies = Map.empty, pinIndex = Map.empty\<rparr>"

text \<open>The hub after \<^verbatim>\<open>attachIO\<close>, a lobby created by alice on the deck with \<open>count\<close>
  questions, alice and bob joined, and the start at time \<open>1000\<close>.\<close>

definition exCreated :: "nat \<Rightarrow> BattleHub" where
  "exCreated count = fst (createLobby exEnv ''alice'' count PUBLIC (attachIO newHub))"

definition exStarted :: "nat \<Rightarrow> BattleHub" where
  "exStarted count =
     run sampleRuntime
       [Join (Some ''lobby001'') None ''alice'' ''Alice'',
        Join (Some ''lobby001'') None ''bob'' ''Bob'',
        Start ''2025-01-05T13:41:00.000Z'' 1000 ''lobby001'']
       (exCreated count)"

definition exSingle :: "jsval list \<Rightarrow> QuestionSnapshot" where
  "exSingle os =
     \<lparr>qid = ''card03'', qtype = MCQ_SINGLE, prompt_md = ''Pick one.'',
      data_json = JObj [(''options'', JArr os)], time_limit_sec = None, hint = None\<rparr>"

definition exOption :: "string \<Rightarrow> bool \<Rightarrow> jsval" where
  "exOption label flag = JObj [(''text'', JStr label), (''correct'', JBool flag)]"

definition exTrueFalse :: "bool \<Rightarrow> QuestionSnapshot" where
  "exTrueFalse key =
     \<lparr>qid = ''card01'', qtype = TRUE_FALSE, prompt_md = ''A hash is reversible.'',
      data_json = JObj [(''correct'', JBool key)], time_limit_sec = Some 30, hint = None\<rparr>"

definition exYes :: jsval where
  "exYes = JObj [(''answer'', JBool True)]"

definition exNo :: jsval where
  "exNo = JObj [(''answer'', JBool False)]"

text \<open>After the start, alice answers the first question with \<open>true\<close> at time \<open>2000\<close>.\<close>

definition exAnswered :: "nat \<Rightarrow> BattleHub" where
  "exAnswered count =
     fst (submitAnswer sampleRuntime 2000 ''lobby001'' ''alice'' exYes (exStarted count))"

text \<open>After the start, before any answer, the host ends the battle early.\<close>

definition exFinishedEarly :: BattleHub where
  "exFinishedEarly = fst (finish ''2025-01-05T13:41:30.000Z'' ''lobby001'' (exStarted 2))"

text \<open>A battle from the lobby as created: alice joins, starts, answers, and goes on to the
  second question.\<close>

definition exTrace :: "op list" where
  "exTrace =
     [Join (Some ''lobby001'') None ''alice'' ''Alice'',
      Start ''2025-01-05T13:41:00.000Z'' 1000 ''lobby001'',
      SubmitAnswer 2000 ''lobby001'' ''alice'' exYes,
      Next ''2025-01-05T13:42:00.000Z'' 9000 ''lobby001'']"

text \<open>After the start carol joins, and bob answers the first question with \<open>true\<close> at time
  \<open>3000\<close>: bob has points, alice and carol have none.\<close>

definition exRanked :: BattleHub where
  "exRanked =
     run sampleRuntime
       [Join (Some ''lobby001'') None ''carol'' ''Carol'',
        SubmitAnswer 3000 ''lobby001'' ''bob'' exYes]
       (exStarted 2)"

section \<open>The grader\<close>

subsection \<open>The three graded types, one equation each\<close>

lemma gradeAnswer_TRUE_FALSE:
  "qtype s = TRUE_FALSE \<Longrightarrow>
   gradeAnswer rt s p = Inr (Boolean (getProp p ''answer'') = Boolean (getProp (dataOf s) ''correct''))"
  by (simp add: gradeAnswer_def)

lemma gradeAnswer_MCQ_SINGLE:
  "qtype s = MCQ_SINGLE \<Longrightarrow>
   gradeAnswer rt s p =
     (case Number rt (getProp p ''index'') of
        Inl e \<Rightarrow> Inl e
      | Inr n \<Rightarrow> Inr (strictEqNum n (Fin (of_int (findIndex flaggedTrue (optionsOf (dataOf s)))))))"
  by (simp add: gradeAnswer_def Let_def)

lemma gradeAnswer_MCQ_MULTI:
  "qtype s = MCQ_MULTI \<Longrightarrow>
   gradeAnswer rt s p =
     (case mapNumber rt (indicesOf p) of
        Inl e \<Rightarrow> Inl e
      | Inr ns \<Rightarrow>
          Inr (length (remdups ns) = length (correctSet (optionsOf (dataOf s))) \<and>
               list_all (\<lambda>i. i \<in> set (map (\<lambda>k. Fin (of_nat k)) (correctSet (optionsOf (dataOf s)))))
                 (remdups ns)))"
  by (simp add: gradeAnswer_def Let_def split: sum.splits)

lemma gradeAnswer_other:
  "qtype s \<noteq> TRUE_FALSE \<Longrightarrow> qtype s \<noteq> MCQ_SINGLE \<Longrightarrow> qtype s \<noteq> MCQ_MULTI \<Longrightarrow>
   gradeAnswer rt s p = Inr False"
  by (simp add: gradeAnswer_def)

lemma strictEqNum_Fin: "strictEqNum n (Fin x) \<longleftrightarrow> n = Fin x"
  by (auto simp: strictEqNum_def)

lemma findIndex_lower: "- 1 \<le> findIndex P xs"
  by (induction xs) (auto simp: Let_def)

lemma findIndex_none: "(\<forall>x \<in> set xs. \<not> P x) \<Longrightarrow> findIndex P xs = - 1"
  by (induction xs) (auto simp: Let_def)

lemma findIndex_first:
  "k < length xs \<Longrightarrow> P (xs ! k) \<Longrightarrow> (\<forall>j < k. \<not> P (xs ! j)) \<Longrightarrow> findIndex P xs = int k"
proof (induction xs arbitrary: k)
  case Nil
  then show ?case by simp
next
  case (Cons x xs)
  show ?case
  proof (cases k)
    case 0
    with Cons.prems show ?thesis by simp
  next
    case (Suc m)
    with Cons.prems have m: "m < length xs" "P (xs ! m)" and nx: "\<not> P x"
      by auto
    have "\<forall>j < m. \<not> P (xs ! j)"
      using Cons.prems(3) Suc by (metis Suc_less_eq nth_Cons_Suc)
    with Cons.IH m have "findIndex P xs = int m" by blast
    with nx Suc show ?thesis by (simp add: Let_def)
  qed
qed

subsection \<open>True/false questions\<close>

text \<open>
  Claim C3, as amended. On a \<^verbatim>\<open>TRUE_FALSE\<close> snapshot \<^verbatim>\<open>gradeAnswer\<close> compares
  \<^verbatim>\<open>Boolean(payload?.answer)\<close> with \<^verbatim>\<open>Boolean(data?.correct)\<close>: it returns true exactly when
  the submitted answer field and the key's \<^verbatim>\<open>correct\<close> field have the same truthiness.
  Both sides are coerced; for a boolean answer against a boolean key this is equality of
  the two booleans.
\<close>

theorem true_false_graded_by_truthiness:
  assumes "qtype s = TRUE_FALSE"
  shows "(gradeAnswer rt s p = Inr True \<longleftrightarrow>
            Boolean (getProp p ''answer'') = Boolean (getProp (dataOf s) ''correct'')) \<and>
         (gradeAnswer rt s p = Inr False \<longleftrightarrow>
            Boolean (getProp p ''answer'') \<noteq> Boolean (getProp (dataOf s) ''correct'')) \<and>
         (\<forall>a k. getProp p ''answer'' = JBool a \<and> getProp (dataOf s) ''correct'' = JBool k \<longrightarrow>
            gradeAnswer rt s p = Inr (a = k))"
  using assms by (auto simp: gradeAnswer_TRUE_FALSE)

text \<open>Claim C3, witness: against the key \<open>true\<close>, the answers \<open>true\<close>, \<open>false\<close> and the number
  \<open>7\<close>.\<close>

theorem true_false_graded_by_truthiness_witness:
  "qtype (exTrueFalse True) = TRUE_FALSE \<and>
   gradeAnswer sampleRuntime (exTrueFalse True) (JObj [(''answer'', JBool True)]) = Inr True \<and>
   gradeAnswer sampleRuntime (exTrueFalse True) (JObj [(''answer'', JBool False)]) = Inr False \<and>
   gradeAnswer sampleRuntime (exTrueFalse True) (JObj [(''answer'', JNum (Fin 7))]) = Inr True"
  using true_false_graded_by_truthiness [of "exTrueFalse True" sampleRuntime "JObj [(''answer'', JBool True)]"]
    true_false_graded_by_truthiness [of "exTrueFalse True" sampleRuntime "JObj [(''answer'', JBool False)]"]
    true_false_graded_by_truthiness [of "exTrueFalse True" sampleRuntime "JObj [(''answer'', JNum (Fin 7))]"]
  by (simp add: exTrueFalse_def dataOf_def)

text \<open>Claim C3 as stated fails: the submitted answer is the string \<^verbatim>\<open>"false"\<close>, not a
  boolean, and it is graded correct against the key \<open>true\<close>.\<close>

theorem true_false_string_counterexample:
  "qtype (exTrueFalse True) = TRUE_FALSE \<and>
   getProp (JObj [(''answer'', JStr ''false'')]) ''answer'' = JStr ''false'' \<and>
   gradeAnswer sampleRuntime (exTrueFalse True) (JObj [(''answer'', JStr ''false'')]) = Inr True"
  by (simp add: exTrueFalse_def dataOf_def gradeAnswer_def)

subsection \<open>Single-choice questions\<close>

text \<open>
  Claim C10. On an \<^verbatim>\<open>MCQ_SINGLE\<close> snapshot with no option whose \<^verbatim>\<open>correct\<close> is \<^verbatim>\<open>true\<close>,
  \<^verbatim>\<open>gradeAnswer\<close> returns true exactly when \<^verbatim>\<open>Number(payload?.index)\<close> is \<open>-1\<close>; with one
  or more such options it returns true exactly when \<^verbatim>\<open>Number(payload?.index)\<close> is the
  position of the first of them.
\<close>

theorem mcq_single_first_flagged:
  assumes "qtype s = MCQ_SINGLE"
  shows "((\<forall>x \<in> set (optionsOf (dataOf s)). \<not> flaggedTrue x) \<longrightarrow>
            (gradeAnswer rt s p = Inr True \<longleftrightarrow> Number rt (getProp p ''index'') = Inr (Fin (- 1)))) \<and>
         (\<forall>k. k < length (optionsOf (dataOf s)) \<and> flaggedTrue (optionsOf (dataOf s) ! k) \<and>
               (\<forall>j < k. \<not> flaggedTrue (optionsOf (dataOf s) ! j)) \<longrightarrow>
            (gradeAnswer rt s p = Inr True \<longleftrightarrow>
               Number rt (getProp p ''index'') = Inr (Fin (of_nat k))))"
proof (intro conjI impI allI)
  assume none: "\<forall>x \<in> set (optionsOf (dataOf s)). \<not> flaggedTrue x"
  have "findIndex flaggedTrue (optionsOf (dataOf s)) = - 1"
    using none by (rule findIndex_none)
  then show "gradeAnswer rt s p = Inr True \<longleftrightarrow> Number rt (getProp p ''index'') = Inr (Fin (- 1))"
    using assms by (simp add: gradeAnswer_MCQ_SINGLE strictEqNum_Fin split: sum.splits)
next
  fix k
  assume k: "k < length (optionsOf (dataOf s)) \<and> flaggedTrue (optionsOf (dataOf s) ! k) \<and>
             (\<forall>j < k. \<not> flaggedTrue (optionsOf (dataOf s) ! j))"
  then have "findIndex flaggedTrue (optionsOf (dataOf s)) = int k"
    by (intro findIndex_first) auto
  then show "gradeAnswer rt s p = Inr True \<longleftrightarrow> Number rt (getProp p ''index'') = Inr (Fin (of_nat k))"
    using assms by (simp add: gradeAnswer_MCQ_SINGLE strictEqNum_Fin split: sum.splits)
qed

text \<open>Claim C10, witness: two options, none flagged, and the payloads \<^verbatim>\<open>{index: -1}\<close> and
  \<^verbatim>\<open>{index: "-1"}\<close>; three options, the second and third flagged, and the payloads
  \<^verbatim>\<open>{index: 1}\<close> and \<^verbatim>\<open>{index: 2}\<close>.\<close>

theorem mcq_single_first_flagged_witness:
  "qtype (exSingle [exOption ''a'' False, exOption ''b'' False]) = MCQ_SINGLE \<and>
   list_all (\<lambda>x. \<not> flaggedTrue x)
     (optionsOf (dataOf (exSingle [exOption ''a'' False, exOption ''b'' False]))) \<and>
   gradeAnswer sampleRuntime (exSingle [exOption ''a'' False, exOption ''b'' False])
     (JObj [(''index'', JNum (Fin (- 1)))]) = Inr True \<and>
   gradeAnswer sampleRuntime (exSingle [exOption ''a'' False, exOption ''b'' False])
     (JObj [(''index'', JStr ''-1'')]) = Inr True \<and>
   gradeAnswer sampleRuntime (exSingle [exOption ''a'' False, exOption ''b'' True, exOption ''c'' True])
     (JObj [(''index'', JNum (Fin 1))]) = Inr True \<and>
   gradeAnswer sampleRuntime (exSingle [exOption ''a'' False, exOption ''b'' True, exOption ''c'' True])
     (JObj [(''index'', JNum (Fin 2))]) \<noteq> Inr True"
proof -
  let ?none = "exSingle [exOption ''a'' False, exOption ''b'' False]"
  let ?two = "exSingle [exOption ''a'' False, exOption ''b'' True, exOption ''c'' True]"
  have ty: "qtype ?none = MCQ_SINGLE" "qtype ?two = MCQ_SINGLE"
    by (simp_all add: exSingle_def)
  have opts: "optionsOf (dataOf ?none) = [exOption ''a'' False, exOption ''b'' False]"
    "optionsOf (dataOf ?two) = [exOption ''a'' False, exOption ''b'' True, exOption ''c'' True]"
    by (simp_all add: exSingle_def dataOf_def optionsOf_def)
  have noflag: "\<forall>x \<in> set (optionsOf (dataOf ?none)). \<not> flaggedTrue x"
    unfolding opts by (simp add: exOption_def flaggedTrue_def)
  have first: "1 < length (optionsOf (dataOf ?two)) \<and> flaggedTrue (optionsOf (dataOf ?two) ! 1) \<and>
               (\<forall>j < 1. \<not> flaggedTrue (optionsOf (dataOf ?two) ! j))"
    unfolding opts by (simp add: exOption_def flaggedTrue_def)
  have num: "Number sampleRuntime (getProp (JObj [(''index'', JNum (Fin (- 1)))]) ''index'') = Inr (Fin (- 1))"
    "Number sampleRuntime (getProp (JObj [(''index'', JStr ''-1'')]) ''index'') = Inr (Fin (- 1))"
    "Number sampleRuntime (getProp (JObj [(''index'', JNum (Fin 1))]) ''index'') = Inr (Fin (of_nat 1))"
    "Number sampleRuntime (getProp (JObj [(''index'', JNum (Fin 2))]) ''index'') \<noteq> Inr (Fin (of_nat 1))"
    by (simp_all add: sampleRuntime_def intLiteral_def digitVal_def)
  note a = mcq_single_first_flagged [OF ty(1), of sampleRuntime, THEN conjunct1, THEN mp, OF noflag]
  note b = mcq_single_first_flagged [OF ty(2), of sampleRuntime, THEN conjunct2, THEN spec, THEN mp, OF first]
  show ?thesis
    using ty(1) noflag a [of "JObj [(''index'', JNum (Fin (- 1)))]"] a [of "JObj [(''index'', JStr ''-1'')]"]
      b [of "JObj [(''index'', JNum (Fin 1))]"] b [of "JObj [(''index'', JNum (Fin 2))]"] num
    unfolding list_all_iff by blast
qed

subsection \<open>Which payloads are graded without an exception\<close>

lemma ToString_arrayJoin_total:
  "(coercible v \<longrightarrow> (\<exists>s. ToString rt v = Inr s))"
  "((\<forall>x \<in> set xs. coercible x) \<longrightarrow> (\<exists>s. arrayJoin rt xs = Inr s))"
proof (induction rt v and rt xs rule: ToString_arrayJoin.induct)
  case (9 rt x xs)
  show ?case
  proof
    assume all: "\<forall>y \<in> set (x # xs). coercible y"
    then have cx: "coercible x" and cxs: "\<forall>y \<in> set xs. coercible y" by auto
    have "\<exists>s. (case x of JUndefined \<Rightarrow> Inr [] | JNull \<Rightarrow> Inr [] | _ \<Rightarrow> ToString rt x) = Inr s"
      using 9(1-5) cx by (cases x) auto
    then obtain s where s: "(case x of JUndefined \<Rightarrow> Inr [] | JNull \<Rightarrow> Inr [] | _ \<Rightarrow> ToString rt x) = Inr s"
      by blast
    show "\<exists>t. arrayJoin rt (x # xs) = Inr t"
    proof (cases "xs = []")
      case True
      with s show ?thesis by simp
    next
      case False
      with 9(6) [OF s False] cxs obtain t where "arrayJoin rt xs = Inr t" by blast
      with s False show ?thesis by simp
    qed
  qed
qed auto

lemma arrayJoin_total: "(\<forall>x \<in> set xs. coercible x) \<Longrightarrow> \<exists>s. arrayJoin rt xs = Inr s"
  using ToString_arrayJoin_total(2) by blast

lemma Number_total: "coercible v \<Longrightarrow> \<exists>n. Number rt v = Inr n"
proof (cases v)
  case (JArr xs)
  assume "coercible v"
  with JArr obtain s where "arrayJoin rt xs = Inr s"
    using arrayJoin_total [of xs rt] by auto
  with JArr show ?thesis by simp
qed auto

lemma mapNumber_total: "(\<forall>x \<in> set xs. coercible x) \<Longrightarrow> \<exists>ns. mapNumber rt xs = Inr ns"
proof (induction xs)
  case Nil
  then show ?case by simp
next
  case (Cons x xs)
  then obtain n ns where "Number rt x = Inr n" "mapNumber rt xs = Inr ns"
    using Number_total [of x rt] by auto
  then show ?case by simp
qed

text \<open>An index that is an object with an own \<^verbatim>\<open>toString\<close> property: \<^verbatim>\<open>Number\<close> throws, and
  so does \<^verbatim>\<open>gradeAnswer\<close>.\<close>

lemma gradeAnswer_throws_on_own_toString:
  "gradeAnswer sampleRuntime (exSingle [exOption ''a'' False, exOption ''b'' True])
     (JObj [(''index'', JObj [(''toString'', JNum (Fin 1))])]) = Inl TypeError"
  by (simp add: exSingle_def gradeAnswer_def hasOwn_def Let_def)

text \<open>
  Claim C7, as amended. \<^verbatim>\<open>gradeAnswer\<close> is a function of the snapshot and the payload (and
  of the runtime's conversions) and touches no state. It returns a boolean on every
  \<^verbatim>\<open>TRUE_FALSE\<close> snapshot, and on every snapshot when neither \<^verbatim>\<open>payload.index\<close> nor an
  element of \<^verbatim>\<open>payload.indices\<close> holds an object with an own \<^verbatim>\<open>toString\<close> property. A
  missing payload (\<^verbatim>\<open>undefined\<close> or \<^verbatim>\<open>null\<close>) is graded as the answer \<open>false\<close> on a
  \<^verbatim>\<open>TRUE_FALSE\<close> snapshot (correct exactly when the key's \<^verbatim>\<open>correct\<close> is falsy), as
  incorrect on \<^verbatim>\<open>MCQ_SINGLE\<close>, and on \<^verbatim>\<open>MCQ_MULTI\<close> as correct exactly when no option is
  flagged.
\<close>

theorem gradeAnswer_total_on_coercible:
  "(qtype s = TRUE_FALSE \<longrightarrow> (\<exists>b. gradeAnswer rt s p = Inr b)) \<and>
   (coercible (getProp p ''index'') \<and> (\<forall>x \<in> set (indicesOf p). coercible x) \<longrightarrow>
      (\<exists>b. gradeAnswer rt s p = Inr b)) \<and>
   (p = JUndefined \<or> p = JNull \<longrightarrow>
      gradeAnswer rt s p =
        Inr (if qtype s = TRUE_FALSE then \<not> Boolean (getProp (dataOf s) ''correct'')
             else if qtype s = MCQ_MULTI then correctSet (optionsOf (dataOf s)) = []
             else False))"
proof (intro conjI impI)
  assume "qtype s = TRUE_FALSE"
  then show "\<exists>b. gradeAnswer rt s p = Inr b"
    by (simp add: gradeAnswer_TRUE_FALSE)
next
  assume c: "coercible (getProp p ''index'') \<and> (\<forall>x \<in> set (indicesOf p). coercible x)"
  obtain n where n: "Number rt (getProp p ''index'') = Inr n"
    using c Number_total by blast
  obtain ns where ns: "mapNumber rt (indicesOf p) = Inr ns"
    using c mapNumber_total by blast
  consider "qtype s = TRUE_FALSE" | "qtype s = MCQ_SINGLE" | "qtype s = MCQ_MULTI"
    | "qtype s \<noteq> TRUE_FALSE" "qtype s \<noteq> MCQ_SINGLE" "qtype s \<noteq> MCQ_MULTI"
    by blast
  then show "\<exists>b. gradeAnswer rt s p = Inr b"
  proof cases
    case 1
    then show ?thesis by (simp add: gradeAnswer_TRUE_FALSE)
  next
    case 2
    then show ?thesis by (simp add: gradeAnswer_MCQ_SINGLE n)
  next
    case 3
    then show ?thesis by (simp add: gradeAnswer_MCQ_MULTI ns)
  next
    case 4
    then show ?thesis by (auto simp: gradeAnswer_other)
  qed
next
  assume m: "p = JUndefined \<or> p = JNull"
  have idx: "getProp p ''index'' = JUndefined" and ans: "getProp p ''answer'' = JUndefined"
    and ind: "indicesOf p = []"
    using m by (auto simp: indicesOf_def)
  consider "qtype s = TRUE_FALSE" | "qtype s = MCQ_SINGLE" | "qtype s = MCQ_MULTI"
    | "qtype s \<noteq> TRUE_FALSE" "qtype s \<noteq> MCQ_SINGLE" "qtype s \<noteq> MCQ_MULTI"
    by blast
  then show "gradeAnswer rt s p =
        Inr (if qtype s = TRUE_FALSE then \<not> Boolean (getProp (dataOf s) ''correct'')
             else if qtype s = MCQ_MULTI then correctSet (optionsOf (dataOf s)) = []
             else False)"
  proof cases
    case 1
    then show ?thesis by (simp add: gradeAnswer_TRUE_FALSE ans)
  next
    case 2
    then show ?thesis by (simp add: gradeAnswer_MCQ_SINGLE idx strictEqNum_def)
  next
    case 3
    then show ?thesis by (auto simp: gradeAnswer_MCQ_MULTI ind)
  next
    case 4
    then show ?thesis by (simp add: gradeAnswer_other)
  qed
qed

text \<open>Claim C7, witness: a true/false question with an array as answer, a single-choice
  question with the index \<^verbatim>\<open>["1"]\<close>, and a true/false question with the payload
  \<^verbatim>\<open>null\<close>.\<close>

theorem gradeAnswer_total_on_coercible_witness:
  "qtype (exTrueFalse True) = TRUE_FALSE \<and>
   coercible (getProp (JObj [(''index'', JArr [JStr ''1''])]) ''index'') \<and>
   list_all coercible (indicesOf (JObj [(''index'', JArr [JStr ''1''])])) \<and>
   (\<exists>b. gradeAnswer sampleRuntime (exSingle [exOption ''a'' False, exOption ''b'' True])
           (JObj [(''index'', JArr [JStr ''1''])]) = Inr b) \<and>
   (\<exists>b. gradeAnswer sampleRuntime (exTrueFalse True) (JObj [(''answer'', JArr [])]) = Inr b) \<and>
   gradeAnswer sampleRuntime (exTrueFalse True) JNull = Inr False"
proof -
  have ty: "qtype (exTrueFalse True) = TRUE_FALSE"
    by (simp add: exTrueFalse_def)
  have co: "coercible (getProp (JObj [(''index'', JArr [JStr ''1''])]) ''index'') \<and>
            (\<forall>x \<in> set (indicesOf (JObj [(''index'', JArr [JStr ''1''])])). coercible x)"
    by (simp add: indicesOf_def)
  have key: "Boolean (getProp (dataOf (exTrueFalse True)) ''correct'')"
    by (simp add: exTrueFalse_def dataOf_def)
  show ?thesis
    unfolding list_all_iff
    using ty co key
      gradeAnswer_total_on_coercible [of "exTrueFalse True" sampleRuntime "JObj [(''answer'', JArr [])]",
        THEN conjunct1, THEN mp, OF ty]
      gradeAnswer_total_on_coercible [of "exSingle [exOption ''a'' False, exOption ''b'' True]"
        sampleRuntime "JObj [(''index'', JArr [JStr ''1''])]", THEN conjunct2, THEN conjunct1, THEN mp, OF co]
      gradeAnswer_total_on_coercible [of "exTrueFalse True" sampleRuntime JNull,
        THEN conjunct2, THEN conjunct2]
    by simp
qed

text \<open>Claim C7 as stated fails: on a true/false question whose key is \<open>false\<close>, a missing
  payload and a payload without the \<^verbatim>\<open>answer\<close> field are graded correct.\<close>

theorem missing_payload_graded_correct_counterexample:
  "qtype (exTrueFalse False) = TRUE_FALSE \<and>
   gradeAnswer sampleRuntime (exTrueFalse False) JUndefined = Inr True \<and>
   gradeAnswer sampleRuntime (exTrueFalse False) (JObj []) = Inr True"
  by (simp add: exTrueFalse_def dataOf_def gradeAnswer_def)

section \<open>Submissions\<close>

lemmas ex_defs = exCreated_def exStarted_def createLobby_def exEnv_def exDeck_def exCard_def
  attachIO_def newHub_def ELIGIBLE_TYPES_def pick_def store_def join_def truthyStr_def
  resolveId_def addPlayer_def emitUpdate_def
  publicLobby_def emit_def start_def emitQuestion_def currentSnapshot_def requireLobby_def

lemmas run_defs = submitAnswer_def recordAnswer_def emitScores_def gradeAnswer_def dataOf_def
  scoreDelta_def
  sampleRuntime_def answerKey_def showNum_def showNat.simps next_question_def finish_def

lemma currentSnapshot_Some:
  "currentSnapshot l = Some q \<longleftrightarrow>
   (\<not> (qIndex l < 0 \<or> qIndex l \<ge> int (length (snapshots l))) \<and> q = snapshots l ! nat (qIndex l))"
  by (auto simp: currentSnapshot_def)

lemma store_same: "lobbies h i = Some l \<Longrightarrow> lobbies (store i l h) = lobbies h"
  by (auto simp: store_def)

lemma lobbies_emit [simp]: "lobbies (emit room ev h) = lobbies h"
  by (simp add: emit_def split: option.splits)

lemma lobbies_store [simp]: "lobbies (store i l h) = (lobbies h)(i \<mapsto> l)"
  by (simp add: store_def)

lemma io_store [simp]: "io (store i l h) = io h"
  by (simp add: store_def)

lemma lobbies_emitScores [simp]: "lobbies (fst (emitScores l h)) = lobbies h"
  by (simp add: emitScores_def split: option.splits sum.splits)

lemma lobbies_emitUpdate [simp]: "lobbies (fst (emitUpdate l h)) = lobbies h"
  by (simp add: emitUpdate_def split: option.splits sum.splits)

lemma lobbies_emitQuestion [simp]: "lobbies (fst (emitQuestion l h)) = lobbies h"
  by (simp add: emitQuestion_def split: option.splits)

text \<open>The four ways in which a submission is refused leave the hub as it is.\<close>

lemma submitAnswer_no_lobby:
  "lobbies h j = None \<Longrightarrow> submitAnswer rt ms j uid payload h = (h, Inl LOBBY_NOT_FOUND)"
  by (simp add: submitAnswer_def requireLobby_def)

lemma submitAnswer_no_question:
  "lobbies h j = Some lobby \<Longrightarrow>
   qIndex lobby < 0 \<or> qIndex lobby \<ge> int (length (snapshots lobby)) \<Longrightarrow>
   submitAnswer rt ms j uid payload h = (h, Inl NO_ACTIVE_QUESTION)"
  by (simp add: submitAnswer_def requireLobby_def)

lemma submitAnswer_grade_throws:
  "lobbies h j = Some lobby \<Longrightarrow> currentSnapshot lobby = Some q \<Longrightarrow>
   gradeAnswer rt q payload = Inl e \<Longrightarrow>
   submitAnswer rt ms j uid payload h = (h, Inl e)"
  by (auto simp: submitAnswer_def requireLobby_def currentSnapshot_Some)

lemma submitAnswer_no_player:
  "lobbies h j = Some lobby \<Longrightarrow> currentSnapshot lobby = Some q \<Longrightarrow>
   gradeAnswer rt q payload = Inr ok \<Longrightarrow> players lobby uid = None \<Longrightarrow>
   submitAnswer rt ms j uid payload h = (h, Inl PLAYER_NOT_IN_LOBBY)"
  by (auto simp: submitAnswer_def requireLobby_def currentSnapshot_Some)

text \<open>Past the four checks, the answer is recorded (if none is) and the scores go out.\<close>

lemma submitAnswer_accepted:
  assumes "lobbies h j = Some lobby" and "currentSnapshot lobby = Some q"
    and "gradeAnswer rt q payload = Inr ok" and "players lobby uid = Some player"
  shows "submitAnswer rt ms j uid payload h =
           (let elapsed = max 0 (ms - (case qShownAt lobby of None \<Rightarrow> ms | Some t \<Rightarrow> t));
                delta = scoreDelta rt ok elapsed;
                lobby1 = recordAnswer uid (answerKey rt q (qIndex lobby)) ok elapsed delta player lobby;
                r = emitScores lobby1 (store j lobby1 h)
            in (fst r, case snd r of
                         Inl e \<Rightarrow> Inl e
                       | Inr u \<Rightarrow> Inr \<lparr>res_correct = ok, res_delta = delta, res_elapsed = elapsed\<rparr>))"
  using assms
  by (auto simp: submitAnswer_def requireLobby_def currentSnapshot_Some Let_def
      split: prod.splits sum.splits)

text \<open>What a submission that returns has computed.\<close>

lemma submitAnswer_returns:
  assumes "submitAnswer rt ms lobbyId uid payload h = (h', Inr res)"
  shows "\<exists>lobby q player.
           lobbies h lobbyId = Some lobby \<and> currentSnapshot lobby = Some q \<and>
           players lobby uid = Some player \<and>
           gradeAnswer rt q payload = Inr (res_correct res) \<and>
           res_elapsed res = max 0 (ms - (case qShownAt lobby of None \<Rightarrow> ms | Some t \<Rightarrow> t)) \<and>
           res_delta res = scoreDelta rt (res_correct res) (res_elapsed res) \<and>
           lobbies h' = (lobbies h)(lobbyId \<mapsto>
             recordAnswer uid (answerKey rt q (qIndex lobby)) (res_correct res) (res_elapsed res)
               (res_delta res) player lobby)"
proof -
  obtain lobby where L: "lobbies h lobbyId = Some lobby"
    using assms submitAnswer_no_lobby [of h lobbyId rt ms uid payload]
    by (cases "lobbies h lobbyId") auto
  have R: "\<not> (qIndex lobby < 0 \<or> qIndex lobby \<ge> int (length (snapshots lobby)))"
    using assms submitAnswer_no_question [OF L, of rt ms uid payload] by auto
  define q where "q = snapshots lobby ! nat (qIndex lobby)"
  have Q: "currentSnapshot lobby = Some q"
    using R by (simp add: currentSnapshot_Some q_def)
  obtain ok where G: "gradeAnswer rt q payload = Inr ok"
    using assms submitAnswer_grade_throws [OF L Q, of rt payload _ ms uid]
    by (cases "gradeAnswer rt q payload") auto
  obtain player where P: "players lobby uid = Some player"
    using assms submitAnswer_no_player [OF L Q G, of uid ms]
    by (cases "players lobby uid") auto
  have "res = \<lparr>res_correct = ok,
               res_delta = scoreDelta rt ok
                 (max 0 (ms - (case qShownAt lobby of None \<Rightarrow> ms | Some t \<Rightarrow> t))),
               res_elapsed = max 0 (ms - (case qShownAt lobby of None \<Rightarrow> ms | Some t \<Rightarrow> t))\<rparr> \<and>
        lobbies h' = (lobbies h)(lobbyId \<mapsto>
          recordAnswer uid (answerKey rt q (qIndex lobby)) ok
            (max 0 (ms - (case qShownAt lobby of None \<Rightarrow> ms | Some t \<Rightarrow> t)))
            (scoreDelta rt ok (max 0 (ms - (case qShownAt lobby of None \<Rightarrow> ms | Some t \<Rightarrow> t))))
            player lobby)"
    using assms unfolding submitAnswer_accepted [OF L Q G P]
    by (auto simp: Let_def split: sum.splits)
  then show ?thesis
    using L Q P G by (intro exI [of _ lobby] exI [of _ q] exI [of _ player]) simp
qed

lemma Math_round_of_int [simp]: "Math_round (of_int n) = n"
  unfolding Math_round_def by (intro floor_unique) simp_all

lemma Math_round_numeral [simp]: "Math_round (numeral k) = numeral k"
  using Math_round_of_int [of "numeral k"] by simp

lemma Math_round_zero [simp]: "Math_round 0 = 0"
  using Math_round_of_int [of 0] by simp

lemma Math_round_mono: "x \<le> y \<Longrightarrow> Math_round x \<le> Math_round y"
  by (simp add: Math_round_def floor_mono)

lemma Math_round_nonneg: "0 \<le> x \<Longrightarrow> 0 \<le> Math_round x"
  by (simp add: Math_round_def)

lemma scoreDelta_antimono:
  assumes "mono (fround rt)" and "e1 \<le> e2"
  shows "scoreDelta rt True e2 \<le> scoreDelta rt True e1"
proof -
  have "(of_int (max 0 (5000 - e2)) :: rat) / 5000 \<le> of_int (max 0 (5000 - e1)) / 5000"
    using assms(2) by (simp add: divide_right_mono)
  then have "fround rt (of_int (max 0 (5000 - e2)) / 5000) \<le> fround rt (of_int (max 0 (5000 - e1)) / 5000)"
    using assms(1) by (simp add: monoD)
  then have "50 * fround rt (of_int (max 0 (5000 - e2)) / 5000)
             \<le> 50 * fround rt (of_int (max 0 (5000 - e1)) / 5000)"
    by simp
  then have "fround rt (50 * fround rt (of_int (max 0 (5000 - e2)) / 5000))
             \<le> fround rt (50 * fround rt (of_int (max 0 (5000 - e1)) / 5000))"
    using assms(1) by (simp add: monoD)
  then show ?thesis
    by (simp add: scoreDelta_def Let_def Math_round_mono)
qed

lemma scoreDelta_base:
  assumes "mono (fround rt)" and "fround rt 0 = 0"
  shows "100 \<le> scoreDelta rt True e"
proof -
  have "(0 :: rat) \<le> of_int (max 0 (5000 - e)) / 5000"
    by simp
  then have "fround rt 0 \<le> fround rt (of_int (max 0 (5000 - e)) / 5000)"
    using monoD [OF assms(1)] by blast
  then have "0 \<le> 50 * fround rt (of_int (max 0 (5000 - e)) / 5000)"
    using assms(2) by simp
  then have "fround rt 0 \<le> fround rt (50 * fround rt (of_int (max 0 (5000 - e)) / 5000))"
    using monoD [OF assms(1)] by blast
  then have "0 \<le> Math_round (fround rt (50 * fround rt (of_int (max 0 (5000 - e)) / 5000)))"
    using assms(2) by (simp add: Math_round_nonneg)
  then show ?thesis
    by (simp add: scoreDelta_def Let_def)
qed

lemma scoreDelta_late:
  assumes "fround rt 0 = 0" and "5000 \<le> e"
  shows "scoreDelta rt True e = 100"
  using assms by (simp add: scoreDelta_def Let_def)

text \<open>
  Claim C9. Of two submissions that \<^verbatim>\<open>submitAnswer\<close> graded correct, the one with the lower
  elapsed time gets a score delta at least as large as the other; each delta is at least
  the base of \<open>100\<close>; and from \<open>5000\<close> ms on the delta is exactly \<open>100\<close>, the bonus being
  zero. The double arithmetic of \<^verbatim>\<open>50 * (speedBonus / 5000)\<close> enters through the
  runtime's rounding, of which the proof uses that it is monotone and maps \<open>0\<close> to \<open>0\<close>.
\<close>

theorem speed_bonus_monotone:
  assumes "mono (fround rt)" and "fround rt 0 = 0"
    and "submitAnswer rt ms1 lobbyId uid1 payload1 h1 = (h1', Inr r1)"
    and "submitAnswer rt ms2 lobbyId uid2 payload2 h2 = (h2', Inr r2)"
    and "res_correct r1" and "res_correct r2"
    and "res_elapsed r1 \<le> res_elapsed r2"
  shows "res_delta r2 \<le> res_delta r1 \<and> 100 \<le> res_delta r2 \<and> 100 \<le> res_delta r1 \<and>
         (5000 \<le> res_elapsed r2 \<longrightarrow> res_delta r2 = 100) \<and>
         (5000 \<le> res_elapsed r1 \<longrightarrow> res_delta r1 = 100)"
proof -
  have d1: "res_delta r1 = scoreDelta rt True (res_elapsed r1)"
    using submitAnswer_returns [OF assms(3)] assms(5) by auto
  have d2: "res_delta r2 = scoreDelta rt True (res_elapsed r2)"
    using submitAnswer_returns [OF assms(4)] assms(6) by auto
  show ?thesis
    unfolding d1 d2
    using scoreDelta_antimono [OF assms(1) assms(7)] scoreDelta_base [OF assms(1,2)]
      scoreDelta_late [OF assms(2)]
    by blast
qed

lemma ex_submit_alice:
  "snd (submitAnswer sampleRuntime 2000 ''lobby001'' ''alice'' exYes (exStarted 2)) =
     Inr \<lparr>res_correct = True, res_delta = 140, res_elapsed = 1000\<rparr>"
  by (simp add: ex_defs run_defs Let_def exYes_def)

lemma ex_submit_bob:
  "snd (submitAnswer sampleRuntime 7000 ''lobby001'' ''bob'' exYes
          (fst (submitAnswer sampleRuntime 2000 ''lobby001'' ''alice'' exYes (exStarted 2)))) =
     Inr \<lparr>res_correct = True, res_delta = 100, res_elapsed = 6000\<rparr>"
  by (simp add: ex_defs run_defs Let_def exYes_def)

text \<open>Claim C9, witness: alice answers after \<open>1000\<close> ms and gets \<open>140\<close>, bob after \<open>6000\<close> ms
  and gets \<open>100\<close>.\<close>

theorem speed_bonus_monotone_witness:
  "\<exists>h1 r1 h2 r2.
     mono (fround sampleRuntime) \<and> fround sampleRuntime 0 = 0 \<and>
     submitAnswer sampleRuntime 2000 ''lobby001'' ''alice'' exYes (exStarted 2) = (h1, Inr r1) \<and>
     submitAnswer sampleRuntime 7000 ''lobby001'' ''bob'' exYes h1 = (h2, Inr r2) \<and>
     res_correct r1 \<and> res_correct r2 \<and> res_elapsed r1 = 1000 \<and> res_elapsed r2 = 6000 \<and>
     res_delta r1 = 140 \<and> res_delta r2 = 100 \<and> res_delta r2 \<le> res_delta r1"
proof -
  let ?a = "submitAnswer sampleRuntime 2000 ''lobby001'' ''alice'' exYes (exStarted 2)"
  let ?r1 = "\<lparr>res_correct = True, res_delta = 140, res_elapsed = 1000\<rparr>"
  let ?b = "submitAnswer sampleRuntime 7000 ''lobby001'' ''bob'' exYes (fst ?a)"
  let ?r2 = "\<lparr>res_correct = True, res_delta = 100, res_elapsed = 6000\<rparr>"
  have m: "mono (fround sampleRuntime)" and z: "fround sampleRuntime 0 = 0"
    by (simp_all add: sampleRuntime_def mono_def)
  have a: "?a = (fst ?a, Inr ?r1)"
    using ex_submit_alice by (simp add: prod_eq_iff)
  have b: "?b = (fst ?b, Inr ?r2)"
    using ex_submit_bob by (simp add: prod_eq_iff)
  have "res_delta ?r2 \<le> res_delta ?r1"
    using speed_bonus_monotone [OF m z a b] by simp
  with m z a b show ?thesis
    by (intro exI [of _ "fst ?a"] exI [of _ ?r1] exI [of _ "fst ?b"] exI [of _ ?r2]) simp
qed

section \<open>Submitting twice\<close>

lemma recorded_cong: "lobbies h = lobbies h' \<Longrightarrow> recorded rt h i u = recorded rt h' i u"
  by (simp add: recorded_def)

lemma submitAnswer_recorded_same:
  assumes "recorded rt h lobbyId uid = Some a"
  shows "lobbies (fst (submitAnswer rt ms lobbyId uid payload h)) = lobbies h"
proof -
  obtain lobby q player where L: "lobbies h lobbyId = Some lobby"
    and Q: "currentSnapshot lobby = Some q" and P: "players lobby uid = Some player"
    and K: "answers player (answerKey rt q (qIndex lobby)) = Some a"
    using assms by (auto simp: recorded_def split: option.splits)
  show ?thesis
  proof (cases "gradeAnswer rt q payload")
    case (Inl e)
    then show ?thesis
      using submitAnswer_grade_throws [OF L Q Inl] by simp
  next
    case (Inr ok)
    have "recordAnswer uid (answerKey rt q (qIndex lobby)) ok e d player lobby = lobby" for e d
      using K by (simp add: recordAnswer_def)
    then show ?thesis
      using L by (simp add: submitAnswer_accepted [OF L Q Inr P] Let_def map_upd_triv)
  qed
qed

lemma submitAnswer_records:
  assumes "submitAnswer rt ms lobbyId uid payload h = (h', Inr res)"
  shows "\<exists>a. recorded rt h' lobbyId uid = Some a"
proof -
  obtain lobby q player where L: "lobbies h lobbyId = Some lobby"
    and Q: "currentSnapshot lobby = Some q" and P: "players lobby uid = Some player"
    and h': "lobbies h' = (lobbies h)(lobbyId \<mapsto>
             recordAnswer uid (answerKey rt q (qIndex lobby)) (res_correct res) (res_elapsed res)
               (res_delta res) player lobby)"
    using submitAnswer_returns [OF assms] by blast
  let ?l1 = "recordAnswer uid (answerKey rt q (qIndex lobby)) (res_correct res) (res_elapsed res)
               (res_delta res) player lobby"
  have l1: "lobbies h' lobbyId = Some ?l1"
    using h' by simp
  have q1: "currentSnapshot ?l1 = Some q" and i1: "qIndex ?l1 = qIndex lobby"
    using Q by (auto simp: currentSnapshot_def recordAnswer_def split: if_splits)
  have "\<exists>p a. players ?l1 uid = Some p \<and> answers p (answerKey rt q (qIndex lobby)) = Some a"
    using P by (cases "answers player (answerKey rt q (qIndex lobby))") (auto simp: recordAnswer_def)
  then show ?thesis
    using l1 q1 i1 by (auto simp: recorded_def)
qed

text \<open>
  Claim C5. After a submission of a participant that \<^verbatim>\<open>submitAnswer\<close> accepted, any number
  of further submissions of that participant for the same question, whatever their
  payloads and times, leave every lobby as it is: the participant's score and recorded
  answer do not change again.
\<close>

theorem resubmission_changes_nothing:
  assumes "submitAnswer rt ms lobbyId uid payload h = (h1, Inr res)"
  shows "lobbies (run rt (map (\<lambda>(t, p). SubmitAnswer t lobbyId uid p) later) h1) = lobbies h1 \<and>
         scoreOf (run rt (map (\<lambda>(t, p). SubmitAnswer t lobbyId uid p) later) h1) lobbyId uid
           = scoreOf h1 lobbyId uid \<and>
         recorded rt (run rt (map (\<lambda>(t, p). SubmitAnswer t lobbyId uid p) later) h1) lobbyId uid
           = recorded rt h1 lobbyId uid"
proof -
  obtain a where a: "recorded rt h1 lobbyId uid = Some a"
    using submitAnswer_records [OF assms] by blast
  have "lobbies (run rt (map (\<lambda>(t, p). SubmitAnswer t lobbyId uid p) later) g) = lobbies g"
    if "recorded rt g lobbyId uid = Some a" for g
    using that
  proof (induction later arbitrary: g)
    case Nil
    then show ?case by simp
  next
    case (Cons x later)
    obtain t p where x: "x = (t, p)" by (cases x)
    let ?g = "fst (submitAnswer rt t lobbyId uid p g)"
    have same: "lobbies ?g = lobbies g"
      using Cons.prems by (rule submitAnswer_recorded_same)
    then have "recorded rt ?g lobbyId uid = Some a"
      using Cons.prems recorded_cong [OF same] by simp
    from Cons.IH [OF this] same show ?case
      by (simp add: x)
  qed
  from this [OF a] show ?thesis
    by (simp add: scoreOf_def recorded_def)
qed


lemma ex_answered_recorded:
  "recorded sampleRuntime (exAnswered 2) ''lobby001'' ''alice'' =
     Some \<lparr>ans_correct = True, ans_ms = 1000\<rparr>"
  by (simp add: exAnswered_def recorded_def ex_defs run_defs Let_def exYes_def)

lemma ex_answered_score: "scoreOf (exAnswered 2) ''lobby001'' ''alice'' = Some 140"
  by (simp add: exAnswered_def scoreOf_def ex_defs run_defs Let_def exYes_def)

lemma ex_resubmit_no:
  "snd (submitAnswer sampleRuntime 4000 ''lobby001'' ''alice'' exNo (exAnswered 2)) =
     Inr \<lparr>res_correct = False, res_delta = 0, res_elapsed = 3000\<rparr>"
  by (simp add: exAnswered_def ex_defs run_defs Let_def exYes_def exNo_def)

lemma ex_resubmit_yes:
  "snd (submitAnswer sampleRuntime 4000 ''lobby001'' ''alice'' exYes (exAnswered 2)) =
     Inr \<lparr>res_correct = True, res_delta = 120, res_elapsed = 3000\<rparr>"
  by (simp add: exAnswered_def ex_defs run_defs Let_def exYes_def)

text \<open>Claim C5, witness: alice has \<open>140\<close> after her first answer, and still after two more
  submissions.\<close>

theorem resubmission_changes_nothing_witness:
  "snd (submitAnswer sampleRuntime 2000 ''lobby001'' ''alice'' exYes (exStarted 2)) =
     Inr \<lparr>res_correct = True, res_delta = 140, res_elapsed = 1000\<rparr> \<and>
   scoreOf (exAnswered 2) ''lobby001'' ''alice'' = Some 140 \<and>
   scoreOf (run sampleRuntime
              (map (\<lambda>(t, p). SubmitAnswer t ''lobby001'' ''alice'' p) [(2500, exYes), (3000, exNo)])
              (exAnswered 2)) ''lobby001'' ''alice'' = Some 140"
proof -
  have first: "submitAnswer sampleRuntime 2000 ''lobby001'' ''alice'' exYes (exStarted 2) =
                 (exAnswered 2, Inr \<lparr>res_correct = True, res_delta = 140, res_elapsed = 1000\<rparr>)"
    using ex_submit_alice by (simp add: prod_eq_iff exAnswered_def)
  show ?thesis
    using resubmission_changes_nothing [OF first, of "[(2500, exYes), (3000, exNo)]"]
      ex_submit_alice ex_answered_score
    by simp
qed

text \<open>
  Claim C4, as amended. When the participant already has a recorded answer for the
  current question, a further \<^verbatim>\<open>submitAnswer\<close> that returns gives the grading of the new
  payload, the elapsed time of the new call and the delta computed from these two; the
  recorded answer and the score stay as they were.
\<close>

theorem resubmission_returns_fresh_grading:
  assumes "recorded rt h lobbyId uid = Some a"
    and "submitAnswer rt ms lobbyId uid payload h = (h', Inr res)"
  shows "\<exists>lobby q.
           lobbies h lobbyId = Some lobby \<and> currentSnapshot lobby = Some q \<and>
           gradeAnswer rt q payload = Inr (res_correct res) \<and>
           res_elapsed res = max 0 (ms - (case qShownAt lobby of None \<Rightarrow> ms | Some t \<Rightarrow> t)) \<and>
           res_delta res = scoreDelta rt (res_correct res) (res_elapsed res) \<and>
           recorded rt h' lobbyId uid = Some a \<and>
           scoreOf h' lobbyId uid = scoreOf h lobbyId uid"
proof -
  have "lobbies (fst (submitAnswer rt ms lobbyId uid payload h)) = lobbies h"
    using assms(1) by (rule submitAnswer_recorded_same)
  then have same: "lobbies h' = lobbies h"
    using assms(2) by simp
  then have "recorded rt h' lobbyId uid = Some a" "scoreOf h' lobbyId uid = scoreOf h lobbyId uid"
    using assms(1) by (simp_all add: recorded_def scoreOf_def)
  then show ?thesis
    using submitAnswer_returns [OF assms(2)] by blast
qed

text \<open>Claim C4, witness: alice's recorded answer is (correct, \<open>1000\<close> ms); her second
  submission, a wrong answer at \<open>3000\<close> ms, returns (incorrect, \<open>0\<close>, \<open>3000\<close>) and changes
  neither the record nor the score.\<close>

theorem resubmission_returns_fresh_grading_witness:
  "recorded sampleRuntime (exAnswered 2) ''lobby001'' ''alice'' =
     Some \<lparr>ans_correct = True, ans_ms = 1000\<rparr> \<and>
   snd (submitAnswer sampleRuntime 4000 ''lobby001'' ''alice'' exNo (exAnswered 2)) =
     Inr \<lparr>res_correct = False, res_delta = 0, res_elapsed = 3000\<rparr> \<and>
   recorded sampleRuntime
     (fst (submitAnswer sampleRuntime 4000 ''lobby001'' ''alice'' exNo (exAnswered 2)))
     ''lobby001'' ''alice'' = Some \<lparr>ans_correct = True, ans_ms = 1000\<rparr> \<and>
   scoreOf (fst (submitAnswer sampleRuntime 4000 ''lobby001'' ''alice'' exNo (exAnswered 2)))
     ''lobby001'' ''alice'' = Some 140"
proof -
  let ?s = "submitAnswer sampleRuntime 4000 ''lobby001'' ''alice'' exNo (exAnswered 2)"
  have second: "?s = (fst ?s, Inr \<lparr>res_correct = False, res_delta = 0, res_elapsed = 3000\<rparr>)"
    using ex_resubmit_no by (simp add: prod_eq_iff)
  show ?thesis
    using resubmission_returns_fresh_grading [OF ex_answered_recorded second]
      ex_answered_recorded ex_resubmit_no ex_answered_score
    by auto
qed

text \<open>Claim C4 as stated fails: the second call does not return the recorded
  (correct, \<open>1000\<close> ms) but the grading of the new payload at the new time; for a second
  correct answer it reports a delta of \<open>120\<close> that is not added to the score.\<close>

theorem resubmission_result_counterexample:
  "recorded sampleRuntime (exAnswered 2) ''lobby001'' ''alice'' =
     Some \<lparr>ans_correct = True, ans_ms = 1000\<rparr> \<and>
   snd (submitAnswer sampleRuntime 4000 ''lobby001'' ''alice'' exNo (exAnswered 2)) =
     Inr \<lparr>res_correct = False, res_delta = 0, res_elapsed = 3000\<rparr> \<and>
   snd (submitAnswer sampleRuntime 4000 ''lobby001'' ''alice'' exYes (exAnswered 2)) =
     Inr \<lparr>res_correct = True, res_delta = 120, res_elapsed = 3000\<rparr>"
  using ex_answered_recorded ex_resubmit_no ex_resubmit_yes by simp

section \<open>The index of the current question\<close>

lemma advanced_refl: "lobby_inv l \<Longrightarrow> advanced l l"
  by (simp add: advanced_def)

text \<open>A change of one lobby into a later state of it gives every lobby a later state.\<close>

lemma advanced_update:
  assumes "lobbies h i = Some l" and "lobby_inv l"
    and "lobbies h' = (lobbies h)(j \<mapsto> l2)" and "lobbies h j = Some l1"
    and "lobby_inv l1 \<Longrightarrow> advanced l1 l2"
  shows "\<exists>l'. lobbies h' i = Some l' \<and> advanced l l'"
proof (cases "i = j")
  case True
  with assms show ?thesis by simp
next
  case False
  with assms(1-3) show ?thesis by (simp add: advanced_refl)
qed

lemma advanced_same:
  assumes "lobbies h i = Some l" and "lobby_inv l" and "lobbies h' = lobbies h"
  shows "\<exists>l'. lobbies h' i = Some l' \<and> advanced l l'"
  using assms by (simp add: advanced_refl)

lemma finish_effect:
  "lobbies (fst (finish stamp j h)) =
     (case lobbies h j of
        None \<Rightarrow> lobbies h
      | Some l \<Rightarrow>
          if finishedAt l \<noteq> None then lobbies h
          else (lobbies h)(j \<mapsto> l\<lparr>finishedAt := Some stamp\<rparr>))"
  by (simp add: finish_def requireLobby_def Let_def split: option.splits sum.splits)

lemma start_effect:
  "lobbies (fst (start stamp ms j h)) =
     (case lobbies h j of
        None \<Rightarrow> lobbies h
      | Some l \<Rightarrow>
          if startedAt l \<noteq> None then lobbies h
          else (lobbies h)(j \<mapsto> l\<lparr>startedAt := Some stamp, qIndex := 0, qShownAt := Some ms\<rparr>))"
  by (simp add: start_def requireLobby_def Let_def split: option.splits)

lemma next_effect:
  "lobbies (fst (next_question stamp ms j h)) =
     (case lobbies h j of
        None \<Rightarrow> lobbies h
      | Some l \<Rightarrow>
          if startedAt l = None then lobbies h
          else if qIndex l + 1 \<ge> int (length (snapshots l)) then
            (if finishedAt l \<noteq> None then (lobbies h)(j \<mapsto> l\<lparr>qIndex := qIndex l + 1\<rparr>)
             else (lobbies h)(j \<mapsto> l\<lparr>qIndex := qIndex l + 1, finishedAt := Some stamp\<rparr>))
          else (lobbies h)(j \<mapsto> l\<lparr>qIndex := qIndex l + 1, qShownAt := Some ms\<rparr>))"
  by (simp add: next_question_def finish_effect requireLobby_def Let_def split: option.splits)

lemma finish_advances:
  assumes "lobbies h i = Some l" and "lobby_inv l"
  shows "\<exists>l'. lobbies (fst (finish stamp j h)) i = Some l' \<and> advanced l l'"
proof (cases "lobbies h j")
  case None
  then show ?thesis
    using assms by (intro advanced_same) (simp_all add: finish_effect)
next
  case (Some l1)
  show ?thesis
  proof (cases "finishedAt l1 = None")
    case True
    show ?thesis
    proof (rule advanced_update [OF assms _ Some])
      show "lobbies (fst (finish stamp j h)) = (lobbies h)(j \<mapsto> l1\<lparr>finishedAt := Some stamp\<rparr>)"
        by (simp add: finish_effect Some True)
      show "advanced l1 (l1\<lparr>finishedAt := Some stamp\<rparr>)" if "lobby_inv l1"
        using that by (simp add: advanced_def lobby_inv_def)
    qed
  next
    case False
    then show ?thesis
      using assms Some by (intro advanced_same) (simp_all add: finish_effect)
  qed
qed

lemma start_advances:
  assumes "lobbies h i = Some l" and "lobby_inv l"
  shows "\<exists>l'. lobbies (fst (start stamp ms j h)) i = Some l' \<and> advanced l l'"
proof (cases "lobbies h j")
  case None
  then show ?thesis
    using assms by (intro advanced_same) (simp_all add: start_effect)
next
  case (Some l1)
  show ?thesis
  proof (cases "startedAt l1 = None")
    case True
    show ?thesis
    proof (rule advanced_update [OF assms _ Some])
      show "lobbies (fst (start stamp ms j h)) =
              (lobbies h)(j \<mapsto> l1\<lparr>startedAt := Some stamp, qIndex := 0, qShownAt := Some ms\<rparr>)"
        by (simp add: start_effect Some True)
      show "advanced l1 (l1\<lparr>startedAt := Some stamp, qIndex := 0, qShownAt := Some ms\<rparr>)"
        if "lobby_inv l1"
        using that True by (auto simp: advanced_def lobby_inv_def)
    qed
  next
    case False
    then show ?thesis
      using assms Some by (intro advanced_same) (simp_all add: start_effect)
  qed
qed

lemma next_advances:
  assumes "lobbies h i = Some l" and "lobby_inv l"
  shows "\<exists>l'. lobbies (fst (next_question stamp ms j h)) i = Some l' \<and> advanced l l'"
proof (cases "lobbies h j")
  case None
  then show ?thesis
    using assms by (intro advanced_same) (simp_all add: next_effect)
next
  case (Some l1)
  show ?thesis
  proof (cases "startedAt l1 = None")
    case True
    then show ?thesis
      using assms Some by (intro advanced_same) (simp_all add: next_effect)
  next
    case False
    let ?l2 = "if qIndex l1 + 1 \<ge> int (length (snapshots l1)) then
                 (if finishedAt l1 \<noteq> None then l1\<lparr>qIndex := qIndex l1 + 1\<rparr>
                  else l1\<lparr>qIndex := qIndex l1 + 1, finishedAt := Some stamp\<rparr>)
               else l1\<lparr>qIndex := qIndex l1 + 1, qShownAt := Some ms\<rparr>"
    show ?thesis
    proof (rule advanced_update [OF assms _ Some])
      show "lobbies (fst (next_question stamp ms j h)) = (lobbies h)(j \<mapsto> ?l2)"
        by (simp add: next_effect Some False)
      show "advanced l1 ?l2" if "lobby_inv l1"
        using that False by (auto simp: advanced_def lobby_inv_def)
    qed
  qed
qed

lemma advanced_recordAnswer:
  "lobby_inv l1 \<Longrightarrow> advanced l1 (recordAnswer uid key ok e d player l1)"
  by (simp add: advanced_def lobby_inv_def recordAnswer_def)

lemma submitAnswer_advances:
  assumes "lobbies h i = Some l" and "lobby_inv l"
  shows "\<exists>l'. lobbies (fst (submitAnswer rt ms j uid payload h)) i = Some l' \<and> advanced l l'"
proof (cases "submitAnswer rt ms j uid payload h")
  case (Pair h' out)
  show ?thesis
  proof (cases "lobbies h j")
    case None
    then show ?thesis
      using assms by (intro advanced_same) (simp_all add: submitAnswer_no_lobby)
  next
    case (Some l1)
    show ?thesis
    proof (cases "currentSnapshot l1")
      case None
      then have "qIndex l1 < 0 \<or> qIndex l1 \<ge> int (length (snapshots l1))"
        by (auto simp: currentSnapshot_def split: if_splits)
      then show ?thesis
        using assms by (intro advanced_same) (simp_all add: submitAnswer_no_question [OF Some])
    next
      case (Some q)
      note Q = this
      show ?thesis
      proof (cases "gradeAnswer rt q payload")
        case (Inl e)
        then show ?thesis
          using assms
          by (intro advanced_same) (simp_all add: submitAnswer_grade_throws [OF \<open>lobbies h j = Some l1\<close> Q])
      next
        case (Inr ok)
        show ?thesis
        proof (cases "players l1 uid")
          case None
          then show ?thesis
            using assms
            by (intro advanced_same)
              (simp_all add: submitAnswer_no_player [OF \<open>lobbies h j = Some l1\<close> Q Inr])
        next
          case (Some player)
          show ?thesis
          proof (rule advanced_update [OF assms _ \<open>lobbies h j = Some l1\<close>])
            show "lobbies (fst (submitAnswer rt ms j uid payload h)) =
                    (lobbies h)(j \<mapsto> recordAnswer uid (answerKey rt q (qIndex l1)) ok
                       (max 0 (ms - (case qShownAt l1 of None \<Rightarrow> ms | Some t \<Rightarrow> t)))
                       (scoreDelta rt ok (max 0 (ms - (case qShownAt l1 of None \<Rightarrow> ms | Some t \<Rightarrow> t))))
                       player l1)"
              by (simp add: submitAnswer_accepted [OF \<open>lobbies h j = Some l1\<close> Q Inr Some] Let_def)
          qed (rule advanced_recordAnswer)
        qed
      qed
    qed
  qed
qed

lemma advanced_addPlayer: "lobby_inv l1 \<Longrightarrow> advanced l1 (addPlayer uid uname l1)"
  by (simp add: advanced_def lobby_inv_def addPlayer_def)

lemma join_effect:
  "lobbies (fst (join j' pin' uid uname h)) = lobbies h \<or>
   (\<exists>j l1. lobbies h j = Some l1 \<and>
      lobbies (fst (join j' pin' uid uname h)) = (lobbies h)(j \<mapsto> addPlayer uid uname l1))"
proof (cases "resolveId h j' pin'")
  case None
  then show ?thesis by (simp add: join_def)
next
  case (Some j)
  show ?thesis
  proof (cases "lobbies h j")
    case None
    with Some show ?thesis by (simp add: join_def)
  next
    case (Some l1)
    have "lobbies (fst (join j' pin' uid uname h)) =
            (if j = [] \<or> finishedAt l1 \<noteq> None then lobbies h
             else (lobbies h)(j \<mapsto> addPlayer uid uname l1))"
      using Some \<open>resolveId h j' pin' = Some j\<close>
      by (simp add: join_def Let_def split_beta split: sum.splits)
    with Some show ?thesis by auto
  qed
qed

lemma join_advances:
  assumes "lobbies h i = Some l" and "lobby_inv l"
  shows "\<exists>l'. lobbies (fst (join j' pin' uid uname h)) i = Some l' \<and> advanced l l'"
  using join_effect [of j' pin' uid uname h]
proof (elim disjE exE conjE)
  assume "lobbies (fst (join j' pin' uid uname h)) = lobbies h"
  with assms show ?thesis by (intro advanced_same)
next
  fix j l1
  assume "lobbies h j = Some l1"
    and "lobbies (fst (join j' pin' uid uname h)) = (lobbies h)(j \<mapsto> addPlayer uid uname l1)"
  then show ?thesis
    using advanced_addPlayer by (intro advanced_update [OF assms]) auto
qed

lemma apply_op_advances:
  assumes "lobbies h i = Some l" and "lobby_inv l"
  shows "\<exists>l'. lobbies (apply_op rt x h) i = Some l' \<and> advanced l l'"
  using assms
  by (cases x)
    (simp_all add: join_advances start_advances next_advances submitAnswer_advances finish_advances)

lemma run_advances:
  assumes "lobbies h i = Some l" and "lobby_inv l"
  shows "\<exists>l'. lobbies (run rt xs h) i = Some l' \<and> advanced l l'"
  using assms
proof (induction xs arbitrary: h l)
  case Nil
  then show ?case by (simp add: advanced_refl)
next
  case (Cons x xs)
  obtain l1 where l1: "lobbies (apply_op rt x h) i = Some l1" "advanced l l1"
    using apply_op_advances [OF Cons.prems] by blast
  then have "lobby_inv l1" by (simp add: advanced_def)
  with Cons.IH [OF l1(1)] obtain l' where "lobbies (run rt xs (apply_op rt x h)) i = Some l'"
    "advanced l1 l'" by blast
  with l1(2) show ?case by (auto simp: advanced_def)
qed

lemma length_shuffleLoop [simp]: "length (shuffleLoop rnd k a) = length a"
  by (induction k arbitrary: a) (simp_all add: Let_def)

lemma createLobby_inv:
  assumes "createLobby env host count acc h = (h', Inr l)" and "0 < count"
  shows "lobby_inv l \<and> (\<exists>i. lobbies h' i = Some l)"
proof -
  obtain deck owner where f: "found env = Some (deck, owner)"
    using assms(1) by (cases "found env") (auto simp: createLobby_def)
  let ?el = "filter (\<lambda>c. card_type c \<in> set ELIGIBLE_TYPES) (cards deck)"
  have ne: "length ?el \<noteq> 0" and pub: "\<not> (visibility deck \<noteq> PUBLIC \<and> owner \<noteq> host)"
    using assms(1) f by (auto simp: createLobby_def Let_def split: if_splits)
  have facts: "qIndex l = - 1" "startedAt l = None" "finishedAt l = None"
    "length (snapshots l) = min count (length ?el)" "lobbies h' (nanoid8 env) = Some l"
    using assms(1) f ne pub
    by (auto simp: createLobby_def Let_def pick_def store_def split: if_splits option.splits)
  have "0 < length ?el"
    using ne by simp
  then have "0 < min count (length ?el)"
    using assms(2) by (simp add: min_def)
  then have "0 < length (snapshots l)"
    by (simp only: facts(4))
  then have "snapshots l \<noteq> []" and "qIndex l < int (length (snapshots l))"
    using facts(1) by simp_all
  then show ?thesis
    using facts(1,2,3,5) unfolding lobby_inv_def by blast
qed

text \<open>
  What holds of the index: over every sequence of join, start, next, submitAnswer and
  finish operations on the hub, the index of a lobby that satisfies the invariant of
  \<^verbatim>\<open>createLobby\<close> never decreases, its questions stay the same, and as long as the lobby
  is not finished the index is below the number of questions.
\<close>

lemma qIndex_monotone_and_bounded_while_unfinished:
  assumes "lobbies h i = Some l" and "lobby_inv l"
  shows "\<exists>l'. lobbies (run rt xs h) i = Some l' \<and> qIndex l \<le> qIndex l' \<and>
              snapshots l' = snapshots l \<and>
              (finishedAt l' = None \<longrightarrow> qIndex l' < int (length (snapshots l')))"
  using run_advances [OF assms, of rt xs] by (auto simp: advanced_def lobby_inv_def)

lemma ex_created_lobby:
  "\<exists>l. lobbies (exCreated 2) ''lobby001'' = Some l \<and> lobby_inv l \<and> qIndex l = - 1 \<and>
       length (snapshots l) = 2"
  by (simp add: ex_defs Let_def lobby_inv_def)

lemma ex_trace_index:
  "map_option qIndex (lobbies (run sampleRuntime exTrace (exCreated 2)) ''lobby001'') = Some 1"
  by (simp add: exTrace_def ex_defs run_defs Let_def exYes_def)

text \<open>
  Claim C6, evaluated. A lobby with one question is started. The first \<^verbatim>\<open>next\<close> takes the
  index to \<open>1\<close>, the number of questions, and finishes the battle. The second \<^verbatim>\<open>next\<close>, on
  the finished lobby, takes the index to \<open>2\<close>, past the number of questions, which is
  still \<open>1\<close>.
\<close>

theorem next_on_finished_lobby_passes_length:
  "map_option (length \<circ> snapshots) (lobbies (exStarted 1) ''lobby001'') = Some 1 \<and>
   map_option qIndex (lobbies (exStarted 1) ''lobby001'') = Some 0 \<and>
   map_option qIndex
     (lobbies (run sampleRuntime [Next ''2025-01-05T13:42:00.000Z'' 9000 ''lobby001'']
        (exStarted 1)) ''lobby001'') = Some 1 \<and>
   map_option finishedAt
     (lobbies (run sampleRuntime [Next ''2025-01-05T13:42:00.000Z'' 9000 ''lobby001'']
        (exStarted 1)) ''lobby001'') = Some (Some ''2025-01-05T13:42:00.000Z'') \<and>
   map_option qIndex
     (lobbies (run sampleRuntime
        [Next ''2025-01-05T13:42:00.000Z'' 9000 ''lobby001'',
         Next ''2025-01-05T13:42:01.000Z'' 10000 ''lobby001'']
        (exStarted 1)) ''lobby001'') = Some 2 \<and>
   map_option (length \<circ> snapshots)
     (lobbies (run sampleRuntime
        [Next ''2025-01-05T13:42:00.000Z'' 9000 ''lobby001'',
         Next ''2025-01-05T13:42:01.000Z'' 10000 ''lobby001'']
        (exStarted 1)) ''lobby001'') = Some 1"
  by (simp add: ex_defs run_defs Let_def)

section \<open>The question broadcast, and a finished battle\<close>

text \<open>The broadcast of a question copies the snapshot's \<open>data_json\<close>.\<close>

lemma emitQuestion_sends_data_json:
  assumes "io h = Some sent" and "currentSnapshot l = Some q"
  shows "\<exists>m. io (fst (emitQuestion l h)) = Some (sent @ [(lobby_id l, lobby_question m)]) \<and>
             data_json (question m) = data_json q"
  using assms by (simp add: emitQuestion_def emit_def)

lemma questionPayload_sends_data_json:
  assumes "currentSnapshot l = Some q"
  shows "\<exists>m. questionPayload l = Some m \<and> data_json (question m) = data_json q"
  using assms by (auto simp: questionPayload_def currentSnapshot_def Let_def split: if_splits)

text \<open>
  Claim C1, evaluated. The \<^verbatim>\<open>lobby:question\<close> events that \<^verbatim>\<open>start\<close> and \<^verbatim>\<open>next\<close> emit, and
  the \<^verbatim>\<open>current\<close> field of the route's reply, carry the snapshot's \<open>data_json\<close> whole: for
  the true/false questions of the example, the \<^verbatim>\<open>correct\<close> field that \<^verbatim>\<open>gradeAnswer\<close>
  reads.
\<close>

theorem question_broadcast_carries_answer_key:
  "map_option last (io (exStarted 2)) =
     Some (''lobby001'',
           lobby_question
             \<lparr>msg_lobbyId = ''lobby001'', msg_qIndex = 0, msg_total = 2, msg_shownAt = Some 1000,
              question = \<lparr>qid = ''card01'', qtype = TRUE_FALSE,
                          prompt_md = ''A hash is reversible.'',
                          data_json = JObj [(''correct'', JBool True)],
                          time_limit_sec = Some 30, hint = None\<rparr>\<rparr>) \<and>
   map_option last
     (io (run sampleRuntime [Next ''2025-01-05T13:42:00.000Z'' 9000 ''lobby001''] (exStarted 2))) =
     Some (''lobby001'',
           lobby_question
             \<lparr>msg_lobbyId = ''lobby001'', msg_qIndex = 1, msg_total = 2, msg_shownAt = Some 9000,
              question = \<lparr>qid = ''card02'', qtype = TRUE_FALSE,
                          prompt_md = ''A hash is reversible.'',
                          data_json = JObj [(''correct'', JBool False)],
                          time_limit_sec = Some 30, hint = None\<rparr>\<rparr>) \<and>
   map_option questionPayload (lobbies (exStarted 2) ''lobby001'') =
     Some (Some
             \<lparr>msg_lobbyId = ''lobby001'', msg_qIndex = 0, msg_total = 2, msg_shownAt = Some 1000,
              question = \<lparr>qid = ''card01'', qtype = TRUE_FALSE,
                          prompt_md = ''A hash is reversible.'',
                          data_json = JObj [(''correct'', JBool True)],
                          time_limit_sec = Some 30, hint = None\<rparr>\<rparr>)"
  by (simp add: ex_defs run_defs Let_def questionPayload_def)

lemma ex_finished_early:
  "map_option finishedAt (lobbies exFinishedEarly ''lobby001'') =
     Some (Some ''2025-01-05T13:41:30.000Z'')"
  "map_option qIndex (lobbies exFinishedEarly ''lobby001'') = Some 0"
  "scoreOf exFinishedEarly ''lobby001'' ''alice'' = Some 0"
  "recorded sampleRuntime exFinishedEarly ''lobby001'' ''alice'' = None"
  by (simp_all add: exFinishedEarly_def ex_defs run_defs Let_def scoreOf_def recorded_def)

lemma ex_submit_after_finish:
  "snd (submitAnswer sampleRuntime 2000 ''lobby001'' ''alice'' exYes exFinishedEarly) =
     Inr \<lparr>res_correct = True, res_delta = 140, res_elapsed = 1000\<rparr>"
  "scoreOf (fst (submitAnswer sampleRuntime 2000 ''lobby001'' ''alice'' exYes exFinishedEarly))
     ''lobby001'' ''alice'' = Some 140"
  "recorded sampleRuntime
     (fst (submitAnswer sampleRuntime 2000 ''lobby001'' ''alice'' exYes exFinishedEarly))
     ''lobby001'' ''alice'' = Some \<lparr>ans_correct = True, ans_ms = 1000\<rparr>"
  by (simp_all add: exFinishedEarly_def ex_defs run_defs Let_def scoreOf_def recorded_def exYes_def)

lemma ex_next_after_finish:
  "map_option qIndex
     (lobbies (fst (next_question ''2025-01-05T13:42:00.000Z'' 9000 ''lobby001'' exFinishedEarly))
        ''lobby001'') = Some 1"
  by (simp add: exFinishedEarly_def ex_defs run_defs Let_def)

text \<open>
  Claim C2, evaluated. The host ends the started battle early, so \<open>finishedAt\<close> is set
  while the first question is current. A submission of alice is then still accepted: her
  score goes from \<open>0\<close> to \<open>140\<close> and her answer is recorded. A \<^verbatim>\<open>next\<close> still moves the index
  from \<open>0\<close> to \<open>1\<close>.
\<close>

theorem finished_lobby_still_mutable:
  "map_option finishedAt (lobbies exFinishedEarly ''lobby001'') =
     Some (Some ''2025-01-05T13:41:30.000Z'') \<and>
   scoreOf exFinishedEarly ''lobby001'' ''alice'' = Some 0 \<and>
   recorded sampleRuntime exFinishedEarly ''lobby001'' ''alice'' = None \<and>
   snd (submitAnswer sampleRuntime 2000 ''lobby001'' ''alice'' exYes exFinishedEarly) =
     Inr \<lparr>res_correct = True, res_delta = 140, res_elapsed = 1000\<rparr> \<and>
   scoreOf (fst (submitAnswer sampleRuntime 2000 ''lobby001'' ''alice'' exYes exFinishedEarly))
     ''lobby001'' ''alice'' = Some 140 \<and>
   recorded sampleRuntime
     (fst (submitAnswer sampleRuntime 2000 ''lobby001'' ''alice'' exYes exFinishedEarly))
     ''lobby001'' ''alice'' = Some \<lparr>ans_correct = True, ans_ms = 1000\<rparr> \<and>
   map_option qIndex (lobbies exFinishedEarly ''lobby001'') = Some 0 \<and>
   map_option qIndex
     (lobbies (fst (next_question ''2025-01-05T13:42:00.000Z'' 9000 ''lobby001'' exFinishedEarly))
        ''lobby001'') = Some 1"
  using ex_finished_early ex_submit_after_finish ex_next_after_finish by simp

text \<open>The part of the property that holds: when the battle has run past its last question,
  a submission is refused and changes nothing; so is a second \<^verbatim>\<open>finish\<close>.\<close>

lemma submitAnswer_past_last_question:
  "lobbies h j = Some l \<Longrightarrow> int (length (snapshots l)) \<le> qIndex l \<Longrightarrow>
   submitAnswer rt ms j uid payload h = (h, Inl NO_ACTIVE_QUESTION)"
  by (simp add: submitAnswer_no_question)

lemma finish_twice:
  "lobbies h j = Some l \<Longrightarrow> finishedAt l \<noteq> None \<Longrightarrow>
   finish stamp j h = (h, Inr AlreadyFinished)"
  by (simp add: finish_def requireLobby_def)

section \<open>The ranking\<close>

lemma nth_pair_Cons:
  "(\<exists>i j. i < j \<and> j < length (a # xs) \<and> (a # xs) ! i = x \<and> (a # xs) ! j = y) \<longleftrightarrow>
   (x = a \<and> y \<in> set xs) \<or> (\<exists>i j. i < j \<and> j < length xs \<and> xs ! i = x \<and> xs ! j = y)"
proof
  assume "\<exists>i j. i < j \<and> j < length (a # xs) \<and> (a # xs) ! i = x \<and> (a # xs) ! j = y"
  then obtain i j where ij: "i < j" "j < Suc (length xs)" "(a # xs) ! i = x" "(a # xs) ! j = y"
    by auto
  then obtain j' where j: "j = Suc j'"
    by (cases j) auto
  show "(x = a \<and> y \<in> set xs) \<or> (\<exists>i j. i < j \<and> j < length xs \<and> xs ! i = x \<and> xs ! j = y)"
  proof (cases i)
    case 0
    with ij j show ?thesis by auto
  next
    case (Suc i')
    with ij j have "i' < j'" "j' < length xs" "xs ! i' = x" "xs ! j' = y"
      by auto
    then show ?thesis by blast
  qed
next
  assume "(x = a \<and> y \<in> set xs) \<or> (\<exists>i j. i < j \<and> j < length xs \<and> xs ! i = x \<and> xs ! j = y)"
  then show "\<exists>i j. i < j \<and> j < length (a # xs) \<and> (a # xs) ! i = x \<and> (a # xs) ! j = y"
  proof
    assume "x = a \<and> y \<in> set xs"
    then obtain k where "k < length xs" "xs ! k = y" "x = a"
      by (auto simp: in_set_conv_nth)
    then have "0 < Suc k" "Suc k < length (a # xs)" "(a # xs) ! 0 = x" "(a # xs) ! Suc k = y"
      by simp_all
    then show ?thesis by blast
  next
    assume "\<exists>i j. i < j \<and> j < length xs \<and> xs ! i = x \<and> xs ! j = y"
    then obtain i j where "i < j" "j < length xs" "xs ! i = x" "xs ! j = y"
      by auto
    then have "Suc i < Suc j" "Suc j < length (a # xs)" "(a # xs) ! Suc i = x" "(a # xs) ! Suc j = y"
      by simp_all
    then show ?thesis by blast
  qed
qed

text \<open>\<open>precedes\<close> by positions.\<close>

lemma precedes_nth_iff:
  "precedes xs x y \<longleftrightarrow> (\<exists>i j. i < j \<and> j < length xs \<and> xs ! i = x \<and> xs ! j = y)"
proof (induction xs)
  case Nil
  then show ?case by simp
next
  case (Cons a xs)
  then show ?case
    by (simp only: precedes.simps nth_pair_Cons)
qed

lemmas precedes_Cons = precedes.simps(2)

lemma set_insertBy [simp]: "set (insertBy cmp x xs) = insert x (set xs)"
  by (induction xs) auto

lemma set_sortBy [simp]: "set (sortBy cmp xs) = set xs"
  by (induction xs) auto

lemma length_insertBy [simp]: "length (insertBy cmp x xs) = Suc (length xs)"
  by (induction xs) auto

lemma length_sortBy [simp]: "length (sortBy cmp xs) = length xs"
  by (induction xs) auto

lemma precedes_insertBy:
  "precedes (insertBy cmp a ys) x y \<Longrightarrow>
   precedes ys x y \<or> (x = a \<and> y \<in> set ys) \<or> (y = a \<and> x \<in> set ys \<and> 0 < cmp a x)"
proof (induction ys)
  case Nil
  then show ?case by (simp add: precedes_Cons)
next
  case (Cons b ys)
  show ?case
  proof (cases "cmp a b \<le> 0")
    case True
    with Cons.prems show ?thesis by (auto simp: precedes_Cons)
  next
    case False
    with Cons.prems have "(x = b \<and> y \<in> insert a (set ys)) \<or> precedes (insertBy cmp a ys) x y"
      by (simp add: precedes_Cons)
    then show ?thesis
      using Cons.IH False by (auto simp: precedes_Cons)
  qed
qed

text \<open>The sort by descending score keeps the order of rows with equal scores.\<close>

lemma sortBy_stable:
  "precedes (sortBy (\<lambda>a b. f b - f a) xs) x y \<Longrightarrow> f x = f y \<Longrightarrow> precedes xs x y"
proof (induction xs)
  case Nil
  then show ?case by simp
next
  case (Cons a xs)
  from Cons.prems(1) have
    "precedes (sortBy (\<lambda>a b. f b - f a) xs) x y \<or> (x = a \<and> y \<in> set xs) \<or>
     (y = a \<and> x \<in> set xs \<and> 0 < f x - f a)"
    using precedes_insertBy [of "\<lambda>a b. f b - f a" a "sortBy (\<lambda>a b. f b - f a) xs" x y] by simp
  with Cons.IH Cons.prems(2) show ?case
    by (auto simp: precedes_Cons)
qed

lemma sortBy_descending:
  "precedes (sortBy (\<lambda>a b. f b - f a) xs) x y \<Longrightarrow> (f y :: int) \<le> f x"
proof (induction xs arbitrary: x y)
  case Nil
  then show ?case by simp
next
  case (Cons a xs)
  let ?ys = "sortBy (\<lambda>a b. f b - f a) xs"
  have ins: "precedes (insertBy (\<lambda>a b. f b - f a) a zs) x y \<Longrightarrow>
             (\<And>u v. precedes zs u v \<Longrightarrow> f v \<le> f u) \<Longrightarrow> f y \<le> f x" for zs
  proof (induction zs)
    case Nil
    then show ?case by (simp add: precedes_Cons)
  next
    case (Cons b zs)
    show ?case
    proof (cases "f b - f a \<le> 0")
      case True
      have "f v \<le> f b" if "v \<in> set zs" for v
        using Cons.prems(2) [of b v] that by (simp add: precedes_Cons)
      with True Cons.prems show ?thesis
        by (fastforce simp: precedes_Cons)
    next
      case False
      have below: "f v \<le> f b" if "v \<in> set zs" for v
        using Cons.prems(2) [of b v] that by (simp add: precedes_Cons)
      have "(x = b \<and> y \<in> insert a (set zs)) \<or> precedes (insertBy (\<lambda>a b. f b - f a) a zs) x y"
        using Cons.prems(1) False by (simp add: precedes_Cons)
      then show ?thesis
      proof
        assume "x = b \<and> y \<in> insert a (set zs)"
        with False below show ?thesis by auto
      next
        assume "precedes (insertBy (\<lambda>a b. f b - f a) a zs) x y"
        then show ?thesis
          using Cons.IH Cons.prems(2) by (simp add: precedes_Cons)
      qed
    qed
  qed
  show ?case
    using ins [of ?ys] Cons.prems Cons.IH by simp
qed


lemma precedes_nth: "a < b \<Longrightarrow> b < length xs \<Longrightarrow> precedes xs (xs ! a) (xs ! b)"
  unfolding precedes_nth_iff by blast

lemma precedes_map:
  "precedes (map g xs) x y \<Longrightarrow> \<exists>u v. precedes xs u v \<and> g u = x \<and> g v = y"
  unfolding precedes_nth_iff by (metis length_map less_trans nth_map)

lemma precedes_distinct: "distinct xs \<Longrightarrow> precedes xs u v \<Longrightarrow> \<not> precedes xs v u"
  unfolding precedes_nth_iff
  by (metis less_trans nth_eq_iff_index_eq not_less_iff_gr_or_eq)

text \<open>The rows are the players in the order of \<open>order\<close>.\<close>

lemma rowsOf_rows:
  "rowsOf ps uids = Inr rows \<Longrightarrow>
   rows = map (\<lambda>uid. \<lparr>row_userId = uid, row_username = username (the (ps uid)),
                       row_score = score (the (ps uid))\<rparr>) uids \<and>
   (\<forall>uid \<in> set uids. ps uid \<noteq> None)"
proof (induction uids arbitrary: rows)
  case Nil
  then show ?case by simp
next
  case (Cons uid uids)
  from Cons.prems obtain p rs where p: "ps uid = Some p" and rs: "rowsOf ps uids = Inr rs"
    and rows: "rows = \<lparr>row_userId = uid, row_username = username p, row_score = score p\<rparr> # rs"
    by (auto split: option.splits sum.splits)
  from Cons.IH [OF rs] p rows show ?case by simp
qed

lemma finish_ranking:
  assumes "finish stamp j h = (h', Inr (Finished ranking awards))" and "lobbies h j = Some l"
  shows "\<exists>rows. rowsOf (players l) (order l) = Inr rows \<and>
                ranking = sortBy (\<lambda>a b. row_score b - row_score a) rows \<and>
                awards = awardsOf ranking"
  using assms
  by (auto simp: finish_def requireLobby_def Let_def split: if_splits sum.splits)

text \<open>
  Claim C8. The ranking that \<^verbatim>\<open>finish\<close> computes lists every participant of \<open>order\<close> once
  with the score the participant has; scores do not increase along it; and of two
  participants with equal scores the one that stands earlier in \<open>order\<close> stands earlier in
  the ranking. The ranking is a function of the lobby.
\<close>

theorem ranking_by_score_then_join_order:
  assumes "finish stamp j h = (h', Inr (Finished ranking awards))"
    and "lobbies h j = Some l" and "distinct (order l)"
  shows "length ranking = length (order l) \<and>
         set (map row_userId ranking) = set (order l) \<and>
         (\<forall>a < length ranking.
            map_option score (players l (row_userId (ranking ! a))) = Some (row_score (ranking ! a))) \<and>
         (\<forall>a b. a < b \<and> b < length ranking \<longrightarrow>
            row_score (ranking ! b) \<le> row_score (ranking ! a) \<and>
            (row_score (ranking ! a) = row_score (ranking ! b) \<longrightarrow>
               precedes (order l) (row_userId (ranking ! a)) (row_userId (ranking ! b)) \<and>
               \<not> precedes (order l) (row_userId (ranking ! b)) (row_userId (ranking ! a))))"
proof -
  let ?g = "\<lambda>uid. \<lparr>row_userId = uid, row_username = username (the (players l uid)),
                     row_score = score (the (players l uid))\<rparr>"
  obtain rows where rows: "rowsOf (players l) (order l) = Inr rows"
    and ranking: "ranking = sortBy (\<lambda>a b. row_score b - row_score a) rows"
    using finish_ranking [OF assms(1,2)] by blast
  have map: "rows = map ?g (order l)" and known: "\<forall>uid \<in> set (order l). players l uid \<noteq> None"
    using rowsOf_rows [OF rows] by simp_all
  have len: "length ranking = length (order l)"
    by (simp add: ranking map)
  have set: "set ranking = ?g ` set (order l)"
    by (simp add: ranking map)
  have uids: "set (map row_userId ranking) = set (order l)"
    by (simp add: set image_image)
  have scores: "\<forall>a < length ranking.
      map_option score (players l (row_userId (ranking ! a))) = Some (row_score (ranking ! a))"
  proof (intro allI impI)
    fix a
    assume "a < length ranking"
    then have "ranking ! a \<in> ?g ` set (order l)"
      using set nth_mem by blast
    then obtain uid where "uid \<in> set (order l)" "ranking ! a = ?g uid"
      by blast
    then show "map_option score (players l (row_userId (ranking ! a))) = Some (row_score (ranking ! a))"
      using known by auto
  qed
  have pairs: "row_score (ranking ! b) \<le> row_score (ranking ! a) \<and>
      (row_score (ranking ! a) = row_score (ranking ! b) \<longrightarrow>
         precedes (order l) (row_userId (ranking ! a)) (row_userId (ranking ! b)) \<and>
         \<not> precedes (order l) (row_userId (ranking ! b)) (row_userId (ranking ! a)))"
    if "a < b \<and> b < length ranking" for a b
  proof -
    have pr: "precedes (sortBy (\<lambda>a b. row_score b - row_score a) rows) (ranking ! a) (ranking ! b)"
      using that precedes_nth [of a b ranking] by (simp add: ranking)
    have desc: "row_score (ranking ! b) \<le> row_score (ranking ! a)"
      using sortBy_descending [OF pr] .
    have tie: "precedes (order l) (row_userId (ranking ! a)) (row_userId (ranking ! b)) \<and>
               \<not> precedes (order l) (row_userId (ranking ! b)) (row_userId (ranking ! a))"
      if eq: "row_score (ranking ! a) = row_score (ranking ! b)"
    proof -
      have "precedes (map ?g (order l)) (ranking ! a) (ranking ! b)"
        using sortBy_stable [OF pr eq] by (simp add: map)
      then obtain u v where uv: "precedes (order l) u v" "?g u = ranking ! a" "?g v = ranking ! b"
        using precedes_map [of ?g "order l" "ranking ! a" "ranking ! b"] by blast
      have "row_userId (?g u) = u" "row_userId (?g v) = v"
        by simp_all
      then have "row_userId (ranking ! a) = u" "row_userId (ranking ! b) = v"
        by (simp_all only: uv(2,3))
      then have "precedes (order l) (row_userId (ranking ! a)) (row_userId (ranking ! b))"
        using uv(1) by simp
      then show ?thesis
        using precedes_distinct [OF assms(3)] by blast
    qed
    from desc tie show ?thesis by blast
  qed
  from len uids scores pairs show ?thesis by blast
qed

lemma ex_ranked_finish:
  "snd (finish ''2025-01-05T13:45:00.000Z'' ''lobby001'' exRanked) =
     Inr (Finished
            [\<lparr>row_userId = ''bob'', row_username = ''Bob'', row_score = 130\<rparr>,
             \<lparr>row_userId = ''alice'', row_username = ''Alice'', row_score = 0\<rparr>,
             \<lparr>row_userId = ''carol'', row_username = ''Carol'', row_score = 0\<rparr>]
            [(\<lparr>row_userId = ''bob'', row_username = ''Bob'', row_score = 130\<rparr>, 30),
             (\<lparr>row_userId = ''alice'', row_username = ''Alice'', row_score = 0\<rparr>, 20),
             (\<lparr>row_userId = ''carol'', row_username = ''Carol'', row_score = 0\<rparr>, 10)])"
  by (simp add: exRanked_def ex_defs run_defs Let_def exYes_def awardsOf_def prizes_def)

lemma ex_ranked_order:
  "\<exists>l. lobbies exRanked ''lobby001'' = Some l \<and> order l = [''alice'', ''bob'', ''carol'']"
  by (simp add: exRanked_def ex_defs run_defs Let_def exYes_def)

text \<open>Claim C8, witness: bob has \<open>130\<close>, alice and carol have \<open>0\<close>; alice joined before
  carol and is ranked before her.\<close>

theorem ranking_by_score_then_join_order_witness:
  "snd (finish ''2025-01-05T13:45:00.000Z'' ''lobby001'' exRanked) =
     Inr (Finished
            [\<lparr>row_userId = ''bob'', row_username = ''Bob'', row_score = 130\<rparr>,
             \<lparr>row_userId = ''alice'', row_username = ''Alice'', row_score = 0\<rparr>,
             \<lparr>row_userId = ''carol'', row_username = ''Carol'', row_score = 0\<rparr>]
            [(\<lparr>row_userId = ''bob'', row_username = ''Bob'', row_score = 130\<rparr>, 30),
             (\<lparr>row_userId = ''alice'', row_username = ''Alice'', row_score = 0\<rparr>, 20),
             (\<lparr>row_userId = ''carol'', row_username = ''Carol'', row_score = 0\<rparr>, 10)]) \<and>
   map_option order (lobbies exRanked ''lobby001'') = Some [''alice'', ''bob'', ''carol''] \<and>
   precedes [''alice'', ''bob'', ''carol''] ''alice'' ''carol'' \<and>
   \<not> precedes [''alice'', ''bob'', ''carol''] ''carol'' ''alice''"
proof -
  let ?f = "finish ''2025-01-05T13:45:00.000Z'' ''lobby001'' exRanked"
  let ?R = "[\<lparr>row_userId = ''bob'', row_username = ''Bob'', row_score = 130\<rparr>,
             \<lparr>row_userId = ''alice'', row_username = ''Alice'', row_score = 0\<rparr>,
             \<lparr>row_userId = ''carol'', row_username = ''Carol'', row_score = 0\<rparr>]"
  let ?A = "[(\<lparr>row_userId = ''bob'', row_username = ''Bob'', row_score = 130\<rparr>, 30),
             (\<lparr>row_userId = ''alice'', row_username = ''Alice'', row_score = 0\<rparr>, 20),
             (\<lparr>row_userId = ''carol'', row_username = ''Carol'', row_score = 0\<rparr>, 10)]"
  obtain l where l: "lobbies exRanked ''lobby001'' = Some l" "order l = [''alice'', ''bob'', ''carol'']"
    using ex_ranked_order by blast
  have d: "distinct (order l)"
    by (simp add: l(2))
  have fin: "?f = (fst ?f, Inr (Finished ?R ?A))"
    using ex_ranked_finish by (simp add: prod_eq_iff)
  have range: "(1::nat) < 2 \<and> 2 < length ?R"
    by simp
  note pair = ranking_by_score_then_join_order [OF fin l(1) d, THEN conjunct2, THEN conjunct2,
      THEN conjunct2, THEN spec, THEN spec, THEN mp, OF range]
  have "precedes (order l) (row_userId (?R ! 1)) (row_userId (?R ! 2)) \<and>
        \<not> precedes (order l) (row_userId (?R ! 2)) (row_userId (?R ! 1))"
    using pair by simp
  then show ?thesis
    using ex_ranked_finish l by simp
qed

lemma addPlayer_keeps_order_distinct:
  assumes "distinct (order l)" and "set (order l) = dom (players l)"
  shows "distinct (order (addPlayer uid uname l)) \<and>
         set (order (addPlayer uid uname l)) = dom (players (addPlayer uid uname l))"
  using assms by (auto simp: addPlayer_def)

end
